theory Spec2Isabelle
  imports Complex_Main "HOL-Library.Sublist" "HOL-Library.Char_ord" "HOL-Library.List_Lexorder"
    "HOL-Library.AList"
begin

section \<open>Python string primitives used by \<open>scripts/fetch.py\<close>\<close>

text \<open>
  A Python \<open>str\<close> is modelled as the list of its characters (\<^typ>\<open>string\<close>), a character
  standing for a code point below 256. \<open>sub in s\<close> is contiguous containment,
  \<open>s.startswith(p)\<close> is \<^const>\<open>prefix\<close>, \<open>s.endswith(p)\<close> is \<^const>\<open>suffix\<close>,
  \<open>s[:n]\<close> is \<^const>\<open>take\<close>.
\<close>

fun str_contains :: "string \<Rightarrow> string \<Rightarrow> bool" where
  "str_contains sub [] = (sub = [])"
| "str_contains sub (c # cs) = (prefix sub (c # cs) \<or> str_contains sub cs)"

text \<open>
  \<open>s.split(sep)\<close>: the pieces between the occurrences of \<open>sep\<close>, found from left to
  right without overlap. \<open>cur\<close> holds the current piece, reversed. Python raises on an
  empty separator; the script only splits on non-empty constants, and the model then
  returns the string as its only piece.
\<close>

fun split_from :: "string \<Rightarrow> string \<Rightarrow> string \<Rightarrow> string list" where
  "split_from sep cur [] = [rev cur]"
| "split_from sep cur (c # cs) =
     (if sep \<noteq> [] \<and> prefix sep (c # cs)
      then rev cur # split_from sep [] (drop (length sep - 1) cs)
      else split_from sep (c # cur) cs)"

definition py_split :: "string \<Rightarrow> string \<Rightarrow> string list" where
  "py_split sep s = split_from sep [] s"

text \<open>\<open>s.replace(old, new)\<close>, every occurrence from left to right without overlap.\<close>

fun py_replace :: "string \<Rightarrow> string \<Rightarrow> string \<Rightarrow> string" where
  "py_replace old new [] = []"
| "py_replace old new (c # cs) =
     (if old \<noteq> [] \<and> prefix old (c # cs)
      then new @ py_replace old new (drop (length old - 1) cs)
      else c # py_replace old new cs)"

text \<open>
  \<open>s.strip()\<close> removes the white space at both ends. Below 256 the characters Python's
  \<open>str.isspace\<close> accepts are 9 to 13, 28 to 32, 133 and 160.
\<close>

definition is_py_space :: "char \<Rightarrow> bool" where
  "is_py_space c = ((of_char c :: nat) \<in> set [9, 10, 11, 12, 13, 28, 29, 30, 31, 32, 133, 160])"

definition py_strip :: "string \<Rightarrow> string" where
  "py_strip s = rev (dropWhile is_py_space (rev (dropWhile is_py_space s)))"

definition newline :: string where
  "newline = [CHR 0x0A]"

section \<open>Filename derivation: \<open>url_to_safe_filename\<close>\<close>

definition doc_prefixes :: "string list" where
  "doc_prefixes = [''/docs/en/'', ''/en/docs/claude-code/'', ''/docs/claude-code/'', ''/claude-code/'']"

text \<open>
  The \<open>for prefix in [...]: if prefix in url_path: ...; break\<close> loop with its \<open>else\<close>
  branch: the first listed prefix found in the path wins, the text after its last
  occurrence is kept; with none of them, \<open>claude-code/\<close> is tried, and else the path
  is kept whole.
\<close>

fun strip_doc_prefix :: "string list \<Rightarrow> string \<Rightarrow> string" where
  "strip_doc_prefix [] url_path =
     (if str_contains ''claude-code/'' url_path
      then last (py_split ''claude-code/'' url_path)
      else url_path)"
| "strip_doc_prefix (p # ps) url_path =
     (if str_contains p url_path
      then last (py_split p url_path)
      else strip_doc_prefix ps url_path)"

definition url_to_safe_filename :: "string \<Rightarrow> string" where
  "url_to_safe_filename url_path =
     (let path = strip_doc_prefix doc_prefixes url_path in
      if \<not> str_contains ''/'' path
      then (if \<not> suffix ''.md'' path then path @ ''.md'' else path)
      else (let safe_name = py_replace ''/'' ''__'' path in
            if \<not> suffix ''.md'' safe_name then safe_name @ ''.md'' else safe_name))"

text \<open>
  The prefix the loop settles on, if any: what \<open>strip_doc_prefix\<close> splits the path on.
\<close>

fun selected_prefix :: "string list \<Rightarrow> string \<Rightarrow> string option" where
  "selected_prefix [] url_path =
     (if str_contains ''claude-code/'' url_path then Some ''claude-code/'' else None)"
| "selected_prefix (p # ps) url_path =
     (if str_contains p url_path then Some p else selected_prefix ps url_path)"

section \<open>Content validation: \<open>validate_markdown_content\<close>\<close>

datatype value_error =
    ReceivedHtml
  | ContentTooShort nat
  | NotMarkdown nat
  | BadRetryAfter
  | NegativeSleep
  | ChangelogTooShort nat

definition markdown_indicators :: "string list" where
  "markdown_indicators =
     [''# '', ''## '', ''### '', ''```'', ''- '', ''* '', ''1. '', ''['', ''**'', ''_'', ''> '']"

text \<open>The inner loop over the indicators, left at the first one that matches.\<close>

fun line_has_indicator :: "string list \<Rightarrow> string \<Rightarrow> bool" where
  "line_has_indicator [] line = False"
| "line_has_indicator (indicator # rest) line =
     (if prefix indicator (py_strip line) \<or> str_contains indicator line then True
      else line_has_indicator rest line)"

text \<open>The outer loop over the lines, with \<open>indicator_count\<close> as accumulator.\<close>

fun count_indicator_lines :: "string list \<Rightarrow> nat \<Rightarrow> nat" where
  "count_indicator_lines [] indicator_count = indicator_count"
| "count_indicator_lines (line # rest) indicator_count =
     count_indicator_lines rest
       (if line_has_indicator markdown_indicators line then indicator_count + 1
        else indicator_count)"

text \<open>\<open>Inl\<close> is the \<open>ValueError\<close> raised, \<open>Inr ()\<close> the normal return.\<close>

definition validate_markdown_content :: "string \<Rightarrow> string \<Rightarrow> value_error + unit" where
  "validate_markdown_content content filename =
     (if content = [] \<or> prefix ''<!DOCTYPE'' content \<or> str_contains ''<html'' (take 100 content)
      then Inl ReceivedHtml
      else if length (py_strip content) < 50
      then Inl (ContentTooShort (length content))
      else (let lines = py_split newline content;
                indicator_count = count_indicator_lines (take 50 lines) 0
            in if indicator_count < 3 then Inl (NotMarkdown indicator_count) else Inr ()))"

text \<open>
  The rejection condition in the words of the specification: empty, an HTML document,
  too short once stripped, or fewer than three of the first fifty lines holding one of
  the markdown indicators.
\<close>

definition holds_indicator :: "string \<Rightarrow> bool" where
  "holds_indicator line = list_ex (\<lambda>indicator. sublist indicator line) markdown_indicators"

definition spec_rejects :: "string \<Rightarrow> bool" where
  "spec_rejects content =
     (content = [] \<or> prefix ''<!DOCTYPE'' content \<or> sublist ''<html'' (take 100 content)
      \<or> length (py_strip content) < 50
      \<or> length (filter holds_indicator (take 50 (py_split newline content))) < 3)"

section \<open>The content fetcher: \<open>fetch_markdown_content\<close>\<close>

definition MAX_RETRIES :: nat where
  "MAX_RETRIES = 3"

definition RETRY_DELAY :: nat where
  "RETRY_DELAY = 2"

definition MAX_RETRY_DELAY :: nat where
  "MAX_RETRY_DELAY = 30"

definition RATE_LIMIT_DELAY :: real where
  "RATE_LIMIT_DELAY = 1 / 2"

text \<open>
  What one \<open>session.get\<close> does: it raises a \<open>requests\<close> exception, or it returns a
  response with a status code, a \<open>Retry-After\<close> header and a body. The header is kept
  as what \<open>int(response.headers.get('Retry-After', 60))\<close> makes of it: absent, an
  integer, or a text \<open>int\<close> rejects with a \<open>ValueError\<close>.
\<close>

datatype request_exception = TransportError string | HTTPError nat

datatype retry_after = NoHeader | HeaderInt int | HeaderNotInt

datatype http_result = GetRaised string | Response nat retry_after string

text \<open>
  The exceptions that leave the fetchers: the terminal \<open>Exception\<close> of the page fetcher
  with the filename, the attempt count and the last underlying error, the one of the
  changelog fetcher, a \<open>ValueError\<close>, and the \<open>OverflowError\<close> of \<open>time.sleep\<close>.
\<close>

datatype py_exception =
    FetchFailed string nat request_exception
  | ChangelogFailed request_exception
  | ValueError value_error
  | OverflowError

text \<open>
  How a call of a fetcher ends: with the pair \<open>(filename, content)\<close>, with an
  exception, or by running off the end of the \<open>for\<close> loop, which in Python returns
  \<open>None\<close>.
\<close>

datatype fetch_outcome = Returns "string \<times> string" | Raises py_exception | ReturnsNone

text \<open>
  The effects, in order: a GET of a URL (with the attempt index of the loop that issued
  it), a \<open>time.sleep\<close> of a number of seconds, a file written, a file unlinked.
\<close>

datatype event = Get string nat | Sleep real | WriteFile string | Unlink string

definition markdown_url :: "string \<Rightarrow> string \<Rightarrow> string" where
  "markdown_url base_url path = base_url @ path @ ''.md''"

text \<open>
  \<open>random.random()\<close> returns a number of the unit interval; \<open>random.uniform(a, b)\<close>
  is \<open>a + (b - a) * random.random()\<close>. A draw is a value of the type \<open>unit_draw\<close>,
  so no draw leaves the interval.
\<close>

typedef unit_draw = "{r::real. 0 \<le> r \<and> r \<le> 1}"
  by (rule exI [of _ 0]) simp

setup_lifting type_definition_unit_draw

definition random_uniform :: "real \<Rightarrow> real \<Rightarrow> unit_draw \<Rightarrow> real" where
  "random_uniform a b r = a + (b - a) * Rep_unit_draw r"

text \<open>
  \<open>time.sleep(secs)\<close> raises a \<open>ValueError\<close> for a negative length and an
  \<open>OverflowError\<close> for a length that does not fit its 64-bit count of nanoseconds:
  from 9223372037 seconds on.
\<close>

definition SLEEP_OVERFLOW :: int where
  "SLEEP_OVERFLOW = 9223372037"

text \<open>
  \<open>min(RETRY_DELAY * (2 ** attempt), MAX_RETRY_DELAY)\<close>, the delay before the jitter.
\<close>

definition backoff_delay :: "nat \<Rightarrow> nat" where
  "backoff_delay attempt = min (RETRY_DELAY * 2 ^ attempt) MAX_RETRY_DELAY"

text \<open>
  The \<open>except requests.exceptions.RequestException\<close> block. \<open>uniform attempt\<close> is what
  \<open>random.random()\<close> yields inside \<open>random.uniform(0.5, 1.0)\<close> at that attempt. The
  result is the events of the block and \<open>None\<close> when the loop goes on, or the outcome
  that ends it.
\<close>

definition on_request_exception ::
  "string \<Rightarrow> (nat \<Rightarrow> unit_draw) \<Rightarrow> nat \<Rightarrow> request_exception \<Rightarrow> event list \<times> fetch_outcome option" where
  "on_request_exception filename uniform attempt e =
     (if attempt < MAX_RETRIES - 1
      then ([Sleep (real (backoff_delay attempt) * random_uniform (1 / 2) 1 (uniform attempt))], None)
      else ([], Some (Raises (FetchFailed filename MAX_RETRIES e))))"

text \<open>
  The status 429 branch: \<open>wait_time = int(...)\<close>, \<open>time.sleep(wait_time)\<close>,
  \<open>continue\<close>. \<open>int\<close> raises a \<open>ValueError\<close> on a header that is no integer,
  \<open>time.sleep\<close> raises one on a negative length and an \<open>OverflowError\<close> on a length
  too large; all three leave the function, the last one past both \<open>except\<close> clauses.
\<close>

definition on_rate_limit :: "retry_after \<Rightarrow> event list \<times> fetch_outcome option" where
  "on_rate_limit header =
     (case header of
        NoHeader \<Rightarrow> ([Sleep 60], None)
      | HeaderInt wait_time \<Rightarrow>
          if wait_time < 0 then ([], Some (Raises (ValueError NegativeSleep)))
          else if SLEEP_OVERFLOW \<le> wait_time then ([], Some (Raises OverflowError))
          else ([Sleep (of_int wait_time)], None)
      | HeaderNotInt \<Rightarrow> ([], Some (Raises (ValueError BadRetryAfter))))"

text \<open>\<open>response.raise_for_status()\<close> raises for the statuses 400 to 599.\<close>

definition is_error_status :: "nat \<Rightarrow> bool" where
  "is_error_status status = (400 \<le> status \<and> status < 600)"

text \<open>The body of the \<open>for attempt in range(MAX_RETRIES)\<close> loop, after the GET.\<close>

definition fetch_attempt ::
  "(nat \<Rightarrow> http_result) \<Rightarrow> (nat \<Rightarrow> unit_draw) \<Rightarrow> string \<Rightarrow> nat \<Rightarrow> event list \<times> fetch_outcome option" where
  "fetch_attempt respond uniform filename attempt =
     (case respond attempt of
        GetRaised msg \<Rightarrow> on_request_exception filename uniform attempt (TransportError msg)
      | Response status header content \<Rightarrow>
          if status = 429 then on_rate_limit header
          else if is_error_status status
          then on_request_exception filename uniform attempt (HTTPError status)
          else (case validate_markdown_content content filename of
                  Inl e \<Rightarrow> ([], Some (Raises (ValueError e)))
                | Inr _ \<Rightarrow> ([], Some (Returns (filename, content)))))"

text \<open>
  The loop itself, over the attempt indices that remain. Every attempt issues one GET.
  With no index left the loop is over and the function returns \<open>None\<close>.
\<close>

fun fetch_loop ::
  "string \<Rightarrow> (nat \<Rightarrow> http_result) \<Rightarrow> (nat \<Rightarrow> unit_draw) \<Rightarrow> string \<Rightarrow> nat list \<Rightarrow> event list \<times> fetch_outcome" where
  "fetch_loop url respond uniform filename [] = ([], ReturnsNone)"
| "fetch_loop url respond uniform filename (attempt # rest) =
     (case fetch_attempt respond uniform filename attempt of
        (evs, Some outcome) \<Rightarrow> (Get url attempt # evs, outcome)
      | (evs, None) \<Rightarrow>
          (case fetch_loop url respond uniform filename rest of
             (later, outcome) \<Rightarrow> (Get url attempt # evs @ later, outcome)))"

definition fetch_markdown_content ::
  "string \<Rightarrow> (nat \<Rightarrow> http_result) \<Rightarrow> (nat \<Rightarrow> unit_draw) \<Rightarrow> string \<Rightarrow> event list \<times> fetch_outcome" where
  "fetch_markdown_content path respond uniform base_url =
     fetch_loop (markdown_url base_url path) respond uniform (url_to_safe_filename path)
       [0..<MAX_RETRIES]"

text \<open>The sleeps between the GET of an attempt and the next GET.\<close>

fun is_get :: "event \<Rightarrow> bool" where
  "is_get (Get url attempt) = True"
| "is_get ev = False"

fun is_get_of :: "nat \<Rightarrow> event \<Rightarrow> bool" where
  "is_get_of k (Get url attempt) = (attempt = k)"
| "is_get_of k ev = False"

definition after_get :: "nat \<Rightarrow> event list \<Rightarrow> event list" where
  "after_get k tr = takeWhile (\<lambda>ev. \<not> is_get ev) (drop 1 (dropWhile (\<lambda>ev. \<not> is_get_of k ev) tr))"

definition gets_of :: "event list \<Rightarrow> nat list" where
  "gets_of tr = concat (map (\<lambda>ev. case ev of Get url attempt \<Rightarrow> [attempt] | _ \<Rightarrow> []) tr)"

text \<open>A transport failure: the GET raised, or the status is one \<open>raise_for_status\<close> rejects.\<close>

fun transport_failure :: "http_result \<Rightarrow> bool" where
  "transport_failure (GetRaised msg) = True"
| "transport_failure (Response status header content) = (status \<noteq> 429 \<and> is_error_status status)"

text \<open>The exception a transport failure hands to the \<open>except\<close> block.\<close>

fun error_of :: "http_result \<Rightarrow> request_exception" where
  "error_of (GetRaised msg) = TransportError msg"
| "error_of (Response status header content) = HTTPError status"

fun rate_limited :: "http_result \<Rightarrow> bool" where
  "rate_limited (GetRaised msg) = False"
| "rate_limited (Response status header content) = (status = 429)"

section \<open>The changelog fetcher: \<open>fetch_changelog\<close>\<close>

definition changelog_url :: string where
  "changelog_url = ''https://raw.githubusercontent.com/anthropics/claude-code/main/CHANGELOG.md''"

definition changelog_header :: string where
  "changelog_header =
     ''# Claude Code Changelog'' @ newline @ newline @
     ''> **Source**: https://github.com/anthropics/claude-code/blob/main/CHANGELOG.md'' @ newline @ newline @
     ''---'' @ newline @ newline"

definition on_changelog_exception ::
  "(nat \<Rightarrow> unit_draw) \<Rightarrow> nat \<Rightarrow> request_exception \<Rightarrow> event list \<times> fetch_outcome option" where
  "on_changelog_exception uniform attempt e =
     (if attempt < MAX_RETRIES - 1
      then ([Sleep (real (backoff_delay attempt) * random_uniform (1 / 2) 1 (uniform attempt))], None)
      else ([], Some (Raises (ChangelogFailed e))))"

definition changelog_attempt ::
  "(nat \<Rightarrow> http_result) \<Rightarrow> (nat \<Rightarrow> unit_draw) \<Rightarrow> nat \<Rightarrow> event list \<times> fetch_outcome option" where
  "changelog_attempt respond uniform attempt =
     (case respond attempt of
        GetRaised msg \<Rightarrow> on_changelog_exception uniform attempt (TransportError msg)
      | Response status header text \<Rightarrow>
          if status = 429 then on_rate_limit header
          else if is_error_status status
          then on_changelog_exception uniform attempt (HTTPError status)
          else (let content = changelog_header @ text in
                if length (py_strip content) < 100
                then ([], Some (Raises (ValueError (ChangelogTooShort (length content)))))
                else ([], Some (Returns (''changelog.md'', content)))))"

fun changelog_loop ::
  "(nat \<Rightarrow> http_result) \<Rightarrow> (nat \<Rightarrow> unit_draw) \<Rightarrow> nat list \<Rightarrow> event list \<times> fetch_outcome" where
  "changelog_loop respond uniform [] = ([], ReturnsNone)"
| "changelog_loop respond uniform (attempt # rest) =
     (case changelog_attempt respond uniform attempt of
        (evs, Some outcome) \<Rightarrow> (Get changelog_url attempt # evs, outcome)
      | (evs, None) \<Rightarrow>
          (case changelog_loop respond uniform rest of
             (later, outcome) \<Rightarrow> (Get changelog_url attempt # evs @ later, outcome)))"

definition fetch_changelog :: "(nat \<Rightarrow> http_result) \<Rightarrow> (nat \<Rightarrow> unit_draw) \<Rightarrow> event list \<times> fetch_outcome" where
  "fetch_changelog respond uniform = changelog_loop respond uniform [0..<MAX_RETRIES]"

section \<open>Page discovery: \<open>discover_claude_code_pages\<close> and the fallback\<close>

definition get_fallback_pages :: "string list" where
  "get_fallback_pages =
     [''/docs/en/overview'', ''/docs/en/setup'', ''/docs/en/quickstart'', ''/docs/en/memory'',
      ''/docs/en/common-workflows'', ''/docs/en/mcp'', ''/docs/en/github-actions'',
      ''/docs/en/troubleshooting'', ''/docs/en/security'', ''/docs/en/settings'',
      ''/docs/en/hooks'', ''/docs/en/costs'', ''/docs/en/monitoring-usage'']"

text \<open>
  The sitemap as the XML library hands it over. \<open>ParseError\<close>: \<open>ET.fromstring\<close> raised.
  \<open>Parsed ns plain\<close>: \<open>ns\<close> lists, for every element \<open>.//ns:url\<close>, the text of its
  \<open>ns:loc\<close> child (\<open>None\<close> without such a child or without text); \<open>plain\<close> lists the
  text of every element \<open>.//loc\<close>.
\<close>

datatype sitemap_xml = ParseError | Parsed "string option list" "string option list"

datatype sitemap_result = SitemapGetRaised | SitemapResponse nat sitemap_xml

text \<open>\<open>if loc_elem is not None and loc_elem.text: urls.append(loc_elem.text)\<close>\<close>

fun collect_locs :: "string option list \<Rightarrow> string list" where
  "collect_locs [] = []"
| "collect_locs (None # rest) = collect_locs rest"
| "collect_locs (Some text # rest) = (if text \<noteq> [] then text # collect_locs rest else collect_locs rest)"

definition english_patterns :: "string list" where
  "english_patterns = [''/docs/en/'', ''/en/docs/claude-code/'']"

definition skip_patterns :: "string list" where
  "skip_patterns = [''/tool-use/'', ''/examples/'', ''/legacy/'', ''/api/'', ''/reference/'']"

text \<open>\<open>any(pattern in s for pattern in patterns)\<close>\<close>

definition any_in :: "string list \<Rightarrow> string \<Rightarrow> bool" where
  "any_in patterns s = list_ex (\<lambda>pattern. str_contains pattern s) patterns"

text \<open>
  The loop over the URLs. \<open>urlparse_path url\<close> is \<open>urlparse(url).path\<close>, or \<open>None\<close>
  where \<open>urlparse\<close> raises; the result is \<open>None\<close> when the loop is left by that
  exception.
\<close>

fun collect_pages :: "(string \<Rightarrow> string option) \<Rightarrow> string list \<Rightarrow> string list option" where
  "collect_pages urlparse_path [] = Some []"
| "collect_pages urlparse_path (url # rest) =
     (if any_in english_patterns url
      then (case urlparse_path url of
              None \<Rightarrow> None
            | Some parsed_path \<Rightarrow>
                (let path = (if suffix ''.html'' parsed_path then take (length parsed_path - 5) parsed_path
                             else if suffix ''/'' parsed_path then take (length parsed_path - 1) parsed_path
                             else parsed_path)
                 in case collect_pages urlparse_path rest of
                      None \<Rightarrow> None
                    | Some pages \<Rightarrow>
                        Some (if \<not> any_in skip_patterns path then path # pages else pages)))
      else collect_pages urlparse_path rest)"

text \<open>
  The function: one GET of the sitemap, then the pages, sorted and without duplicates.
  Every exception inside the \<open>try\<close> ends in \<open>get_fallback_pages()\<close>.
\<close>

definition discover_claude_code_pages ::
  "sitemap_result \<Rightarrow> (string \<Rightarrow> string option) \<Rightarrow> string \<Rightarrow> event list \<times> string list" where
  "discover_claude_code_pages sitemap urlparse_path sitemap_url =
     ([Get sitemap_url 0],
      (case sitemap of
         SitemapGetRaised \<Rightarrow> get_fallback_pages
       | SitemapResponse status xml \<Rightarrow>
           if is_error_status status then get_fallback_pages
           else (case xml of
                   ParseError \<Rightarrow> get_fallback_pages
                 | Parsed ns plain \<Rightarrow>
                     (let urls = collect_locs ns;
                          urls = (if urls = [] then collect_locs plain else urls)
                      in case collect_pages urlparse_path urls of
                           None \<Rightarrow> get_fallback_pages
                         | Some claude_code_pages \<Rightarrow> sort (remdups claude_code_pages)))))"

section \<open>The manifest and the orchestrator: \<open>fetch_docs\<close>\<close>

text \<open>
  A JSON object is an association list in insertion order, read with \<^const>\<open>map_of\<close> and
  written with \<^const>\<open>AList.update\<close>, which replaces the value of a key in place and
  puts a new key last, as a Python \<open>dict\<close> does. A manifest entry maps
  \<open>original_url\<close>, \<open>hash\<close>, \<open>last_updated\<close> and \<open>source\<close> to strings; the files of a
  manifest map a filename to its entry.
\<close>

type_synonym entry = "(string \<times> string) list"

type_synonym manifest_files = "(string \<times> entry) list"

definition MANIFEST_FILE :: string where
  "MANIFEST_FILE = ''docs_manifest.json''"

text \<open>
  \<open>load_manifest\<close>: the file is missing, unreadable as JSON, or parsed with or without
  a \<open>files\<close> key. Only the files are read later.
\<close>

datatype manifest_on_disk = NoManifest | CorruptManifest | ParsedManifest "manifest_files option"

fun load_manifest :: "manifest_on_disk \<Rightarrow> manifest_files" where
  "load_manifest NoManifest = []"
| "load_manifest CorruptManifest = []"
| "load_manifest (ParsedManifest None) = []"
| "load_manifest (ParsedManifest (Some files)) = files"

text \<open>\<open>hashlib.sha256(content.encode('utf-8')).hexdigest()\<close> is the parameter \<open>sha256\<close>.\<close>

definition content_has_changed :: "(string \<Rightarrow> string) \<Rightarrow> string \<Rightarrow> string \<Rightarrow> bool" where
  "content_has_changed sha256 content old_hash = (sha256 content \<noteq> old_hash)"

record run_state =
  disk :: "string \<rightharpoonup> string"
  trace :: "event list"
  new_files :: manifest_files
  fetched_files :: "string set"
  successful :: nat
  failed :: nat
  failed_pages :: "string list"

definition save_markdown_file :: "(string \<Rightarrow> string) \<Rightarrow> string \<Rightarrow> string \<Rightarrow> run_state \<Rightarrow> string \<times> run_state" where
  "save_markdown_file sha256 filename content st =
     (sha256 content,
      st\<lparr>disk := (disk st)(filename \<mapsto> content), trace := trace st @ [WriteFile filename]\<rparr>)"

text \<open>\<open>manifest.get("files", {}).get(filename, {})\<close> and \<open>d.get(key, default)\<close>\<close>

definition old_entry_of :: "manifest_files \<Rightarrow> string \<Rightarrow> entry" where
  "old_entry_of files filename = (case map_of files filename of None \<Rightarrow> [] | Some e \<Rightarrow> e)"

definition get_or :: "entry \<Rightarrow> string \<Rightarrow> string \<Rightarrow> string" where
  "get_or e key dflt = (case map_of e key of None \<Rightarrow> dflt | Some v \<Rightarrow> v)"

text \<open>
  The block that follows a successful fetch, written twice in \<open>fetch_docs\<close>: for a page
  (\<open>extra = []\<close>) and for the changelog (\<open>extra\<close> holds the \<open>source\<close> key). \<open>now\<close>
  is \<open>datetime.now().isoformat()\<close> at that moment.
\<close>

definition record_fetched ::
  "(string \<Rightarrow> string) \<Rightarrow> manifest_files \<Rightarrow> string \<Rightarrow> entry \<Rightarrow> string \<Rightarrow> string \<times> string \<Rightarrow> run_state \<Rightarrow> run_state" where
  "record_fetched sha256 files original_url extra now fc st =
     (case fc of (filename, content) \<Rightarrow>
        (let old_hash = get_or (old_entry_of files filename) ''hash'' [];
             old_entry = old_entry_of files filename;
             (content_hash, last_updated, st1) =
               (if content_has_changed sha256 content old_hash
                then (case save_markdown_file sha256 filename content st of
                        (h, st') \<Rightarrow> (h, now, st'))
                else (old_hash, get_or old_entry ''last_updated'' now, st))
         in st1\<lparr>new_files :=
                   AList.update filename
                     ([(''original_url'', original_url), (''hash'', content_hash),
                       (''last_updated'', last_updated)] @ extra)
                     (new_files st1),
                 fetched_files := insert filename (fetched_files st1),
                 successful := successful st1 + 1\<rparr>))"

text \<open>
  What the run reads from outside: the outcome of \<open>discover_sitemap_and_base_url\<close>
  (\<open>None\<close> when it raises), the sitemap, \<open>urlparse\<close>, the responses and the random
  draws of every page (by its position, from 1) and of the changelog, the hash function
  and the clock.
\<close>

record env =
  probe :: "(string \<times> string) option"
  sitemap :: sitemap_result
  urlparse_path :: "string \<Rightarrow> string option"
  page_respond :: "nat \<Rightarrow> nat \<Rightarrow> http_result"
  page_uniform :: "nat \<Rightarrow> nat \<Rightarrow> unit_draw"
  changelog_respond :: "nat \<Rightarrow> http_result"
  changelog_uniform :: "nat \<Rightarrow> unit_draw"
  sha256 :: "string \<Rightarrow> string"
  now_page :: "nat \<Rightarrow> string"
  now_changelog :: string
  manifest_json :: "manifest_files \<Rightarrow> string"

text \<open>
  The body of the loop \<open>for i, page_path in enumerate(documentation_pages, 1)\<close>.
  Every outcome of the fetcher but a returned pair ends in the \<open>except Exception\<close>
  block: an exception does, and so does \<open>None\<close>, which the unpacking
  \<open>filename, content = ...\<close> rejects.
\<close>

definition process_page ::
  "env \<Rightarrow> manifest_files \<Rightarrow> string \<Rightarrow> nat \<Rightarrow> nat \<Rightarrow> string \<Rightarrow> run_state \<Rightarrow> run_state" where
  "process_page e files base_url n_pages i page_path st =
     (case fetch_markdown_content page_path (page_respond e i) (page_uniform e i) base_url of
        (tr, outcome) \<Rightarrow>
          (let st1 = st\<lparr>trace := trace st @ tr\<rparr> in
           case outcome of
             Returns fc \<Rightarrow>
               (let st2 = record_fetched (sha256 e) files (base_url @ page_path) [] (now_page e i) fc st1
                in if i < n_pages then st2\<lparr>trace := trace st2 @ [Sleep RATE_LIMIT_DELAY]\<rparr> else st2)
           | Raises ex \<Rightarrow>
               st1\<lparr>failed := failed st1 + 1, failed_pages := failed_pages st1 @ [page_path]\<rparr>
           | ReturnsNone \<Rightarrow>
               st1\<lparr>failed := failed st1 + 1, failed_pages := failed_pages st1 @ [page_path]\<rparr>))"

fun fetch_pages ::
  "env \<Rightarrow> manifest_files \<Rightarrow> string \<Rightarrow> nat \<Rightarrow> (nat \<times> string) list \<Rightarrow> run_state \<Rightarrow> run_state" where
  "fetch_pages e files base_url n_pages [] st = st"
| "fetch_pages e files base_url n_pages ((i, page_path) # rest) st =
     fetch_pages e files base_url n_pages rest (process_page e files base_url n_pages i page_path st)"

definition fetch_changelog_step :: "env \<Rightarrow> manifest_files \<Rightarrow> run_state \<Rightarrow> run_state" where
  "fetch_changelog_step e files st =
     (case fetch_changelog (changelog_respond e) (changelog_uniform e) of
        (tr, outcome) \<Rightarrow>
          (let st1 = st\<lparr>trace := trace st @ tr\<rparr> in
           case outcome of
             Returns fc \<Rightarrow>
               record_fetched (sha256 e) files
                 ''https://github.com/anthropics/claude-code/blob/main/CHANGELOG.md''
                 [(''source'', ''github'')] (now_changelog e) fc st1
           | Raises ex \<Rightarrow> st1\<lparr>failed := failed st1 + 1\<rparr>
           | ReturnsNone \<Rightarrow> st1\<lparr>failed := failed st1 + 1\<rparr>))"

definition protected_files :: "string set" where
  "protected_files = {MANIFEST_FILE, ''README.md''}"

text \<open>
  \<open>cleanup_old_files\<close>: the loop over \<open>previous_files - current_files\<close>. Python walks
  that set in no fixed order; the model walks it in the order of the manifest.
\<close>

fun remove_files :: "string list \<Rightarrow> run_state \<Rightarrow> run_state" where
  "remove_files [] st = st"
| "remove_files (filename # rest) st =
     (if filename \<in> protected_files then remove_files rest st
      else if disk st filename \<noteq> None
      then remove_files rest
             (st\<lparr>disk := (disk st)(filename := None), trace := trace st @ [Unlink filename]\<rparr>)
      else remove_files rest st)"

definition cleanup_old_files :: "string set \<Rightarrow> manifest_files \<Rightarrow> run_state \<Rightarrow> run_state" where
  "cleanup_old_files current_files files st =
     (let previous_files = remdups (map fst files);
          files_to_remove = filter (\<lambda>filename. filename \<notin> current_files) previous_files
      in remove_files files_to_remove st)"

text \<open>\<open>save_manifest\<close> writes the new manifest, serialised, to the manifest file.\<close>

definition save_manifest :: "env \<Rightarrow> run_state \<Rightarrow> run_state" where
  "save_manifest e st =
     st\<lparr>disk := (disk st)(MANIFEST_FILE \<mapsto> manifest_json e (new_files st)),
        trace := trace st @ [WriteFile MANIFEST_FILE]\<rparr>"

text \<open>The files a trace unlinks.\<close>

definition unlinked :: "event list \<Rightarrow> string list" where
  "unlinked tr = concat (map (\<lambda>ev. case ev of Unlink filename \<Rightarrow> [filename] | _ \<Rightarrow> []) tr)"

text \<open>
  What a step of the run keeps: the keys of the new manifest are the fetched names, no
  file leaves the disk, nothing is unlinked.
\<close>

definition keeps :: "run_state \<Rightarrow> run_state \<Rightarrow> bool" where
  "keeps st st' =
     ((fst ` set (new_files st) = fetched_files st \<longrightarrow> fst ` set (new_files st') = fetched_files st')
      \<and> dom (disk st) \<subseteq> dom (disk st')
      \<and> unlinked (trace st') = unlinked (trace st))"

text \<open>
  What a step of the run leaves alone for a filename: its file on disk, its entry in the
  new manifest, whether it counts as fetched and whether it was written.
\<close>

definition untouched :: "string \<Rightarrow> run_state \<Rightarrow> run_state \<Rightarrow> bool" where
  "untouched f st st' =
     (disk st' f = disk st f
      \<and> map_of (new_files st') f = map_of (new_files st) f
      \<and> (f \<in> fetched_files st') = (f \<in> fetched_files st)
      \<and> (WriteFile f \<in> set (trace st')) = (WriteFile f \<in> set (trace st)))"

datatype run_result = Exited nat | Completed run_state

definition enumerate_from :: "nat \<Rightarrow> 'a list \<Rightarrow> (nat \<times> 'a) list" where
  "enumerate_from n xs = zip [n..<n + length xs] xs"

text \<open>
  \<open>fetch_docs\<close> in three parts. First the discovery: the base URL, the requests made
  and the pages; \<open>if sitemap_url:\<close> fails for \<open>None\<close> and for the empty string.
\<close>

definition discovery :: "env \<Rightarrow> string \<times> event list \<times> string list" where
  "discovery e =
     (case (case probe e of
              Some (found_url, found_base) \<Rightarrow> (found_url, found_base)
            | None \<Rightarrow> ([], ''https://code.claude.com'')) of
        (sitemap_url, base_url) \<Rightarrow>
          (if sitemap_url \<noteq> []
           then (case discover_claude_code_pages (sitemap e) (urlparse_path e) sitemap_url of
                   (tr, documentation_pages) \<Rightarrow> (base_url, tr, documentation_pages))
           else (base_url, [], get_fallback_pages)))"

text \<open>Then the pages, the changelog, the cleanup and the new manifest.\<close>

definition run_after_discovery ::
  "env \<Rightarrow> manifest_files \<Rightarrow> (string \<rightharpoonup> string) \<Rightarrow> string \<Rightarrow> event list \<Rightarrow> string list \<Rightarrow> run_state" where
  "run_after_discovery e files disk0 base_url tr documentation_pages =
     (let st0 = \<lparr>disk = disk0, trace = tr, new_files = [], fetched_files = {},
                 successful = 0, failed = 0, failed_pages = []\<rparr>;
          st1 = fetch_pages e files base_url (length documentation_pages)
                  (enumerate_from 1 documentation_pages) st0;
          st2 = fetch_changelog_step e files st1;
          st3 = cleanup_old_files (fetched_files st2) files st2
      in save_manifest e st3)"

text \<open>The whole: \<open>sys.exit(1)\<close> when no page was discovered.\<close>

definition fetch_docs :: "env \<Rightarrow> manifest_on_disk \<Rightarrow> (string \<rightharpoonup> string) \<Rightarrow> run_result" where
  "fetch_docs e stored disk0 =
     (case discovery e of
        (base_url, tr, documentation_pages) \<Rightarrow>
          if documentation_pages = [] then Exited 1
          else Completed
                 (run_after_discovery e (load_manifest stored) disk0 base_url tr documentation_pages))"

section \<open>The reconciler: \<open>validate_skill_md\<close>\<close>

record validation =
  orphaned :: "string list"
  unreferenced :: "string list"

text \<open>
  \<open>referenced\<close> is the set \<open>get_skill_md_references()\<close> returns. \<open>sorted(list(s))\<close> of
  a set of strings is its elements in ascending order.
\<close>

definition validate_skill_md :: "string set \<Rightarrow> string set \<Rightarrow> validation" where
  "validate_skill_md referenced fetched =
     (let orphaned_set = referenced - fetched - {''README.md'', ''docs_manifest.json''};
          unreferenced_set = fetched - referenced - {''README.md'', ''docs_manifest.json''}
      in \<lparr>orphaned = sorted_list_of_set orphaned_set,
          unreferenced = sorted_list_of_set unreferenced_set\<rparr>)"

section \<open>Concrete scenarios\<close>

definition fails_then_succeeds :: "nat \<Rightarrow> http_result" where
  "fails_then_succeeds attempt =
     (if attempt = 0 then GetRaised ''timeout''
      else Response 200 NoHeader
        (''# Setup'' @ newline @ ''- install the package first'' @ newline @
         ''- then run the [quickstart] guide'' @ newline @ ''plain text''))"

text \<open>Two draws: the middle of the interval, which gives a jitter of 3/4, and its upper
  end, which gives a jitter of 1.\<close>

lift_definition draw_half :: unit_draw is "1 / 2"
  by simp

lift_definition draw_one :: unit_draw is "1"
  by simp

definition jitter_three_quarters :: "nat \<Rightarrow> unit_draw" where
  "jitter_three_quarters attempt = draw_half"

definition rate_limited_once :: "nat \<Rightarrow> http_result" where
  "rate_limited_once attempt =
     (if attempt = 0 then Response 429 (HeaderInt 5) [] else GetRaised ''timeout'')"

definition rate_limited_overflow :: "nat \<Rightarrow> http_result" where
  "rate_limited_overflow attempt = Response 429 (HeaderInt 100000000000000000000) []"

definition always_rate_limited :: "nat \<Rightarrow> http_result" where
  "always_rate_limited attempt = Response 429 NoHeader []"

definition fails_then_rate_limited :: "nat \<Rightarrow> http_result" where
  "fails_then_rate_limited attempt =
     (if attempt < 2 then GetRaised ''timeout'' else Response 429 (HeaderInt 5) [])"

definition no_jitter :: "nat \<Rightarrow> unit_draw" where
  "no_jitter attempt = draw_one"

definition unparsable_urls :: "string \<Rightarrow> string option" where
  "unparsable_urls url = None"

definition path_after_host :: "string \<Rightarrow> string option" where
  "path_after_host url = Some (drop 23 url)"

definition empty_sitemap_env :: env where
  "empty_sitemap_env =
     \<lparr>probe = Some (''https://code.claude.com/docs/sitemap.xml'', ''https://code.claude.com''),
      sitemap = SitemapResponse 200 (Parsed [] []),
      urlparse_path = path_after_host,
      page_respond = (\<lambda>i. always_rate_limited),
      page_uniform = (\<lambda>i. no_jitter),
      changelog_respond = always_rate_limited,
      changelog_uniform = no_jitter,
      sha256 = (\<lambda>content. ''sha256:'' @ content),
      now_page = (\<lambda>i. ''2025-01-02T00:00:00''),
      now_changelog = ''2025-01-02T00:00:01'',
      manifest_json = (\<lambda>files. concat (map fst files))\<rparr>"

definition empty_changelog :: "nat \<Rightarrow> http_result" where
  "empty_changelog attempt = Response 200 NoHeader []"

text \<open>A stand-in for the hash function, and a stored manifest with three files.\<close>

definition toy_sha256 :: "string \<Rightarrow> string" where
  "toy_sha256 content = ''sha256:'' @ content"

definition setup_page :: string where
  "setup_page =
     ''# Setup'' @ newline @ ''- install the package first'' @ newline @
     ''- then run the [quickstart] guide'' @ newline @ ''plain text''"

definition changed_page :: string where
  "changed_page = setup_page @ newline @ ''- one more step''"

definition stored_entry :: entry where
  "stored_entry =
     [(''original_url'', ''https://code.claude.com/docs/en/setup''),
      (''hash'', toy_sha256 setup_page),
      (''last_updated'', ''2024-12-31T10:00:00'')]"

definition stored_files :: manifest_files where
  "stored_files =
     [(''setup.md'', stored_entry),
      (''old.md'', [(''hash'', toy_sha256 ''old''), (''last_updated'', ''2024-12-31T10:00:00'')]),
      (''README.md'', [(''hash'', toy_sha256 ''readme''), (''last_updated'', ''2024-12-31T10:00:00'')])]"

definition stored_disk :: "string \<rightharpoonup> string" where
  "stored_disk =
     [''setup.md'' \<mapsto> setup_page, ''old.md'' \<mapsto> ''old'', ''README.md'' \<mapsto> ''readme'',
      ''docs_manifest.json'' \<mapsto> ''{}'']"

definition fresh_state :: run_state where
  "fresh_state =
     \<lparr>disk = stored_disk, trace = [], new_files = [], fetched_files = {},
      successful = 0, failed = 0, failed_pages = []\<rparr>"

text \<open>
  A run: the sitemap lists two pages; \<open>hooks\<close> fails on every attempt, \<open>setup\<close> is
  fetched unchanged, the changelog is fetched.
\<close>

definition demo_respond :: "nat \<Rightarrow> nat \<Rightarrow> http_result" where
  "demo_respond i attempt = (if i = 2 then Response 200 NoHeader setup_page else GetRaised ''timeout'')"

definition demo_env :: env where
  "demo_env =
     \<lparr>probe = Some (''https://code.claude.com/docs/sitemap.xml'', ''https://code.claude.com''),
      sitemap = SitemapResponse 200
        (Parsed [Some ''https://code.claude.com/docs/en/setup'',
                 Some ''https://code.claude.com/docs/en/hooks.html''] []),
      urlparse_path = path_after_host,
      page_respond = demo_respond,
      page_uniform = (\<lambda>i. no_jitter),
      changelog_respond = (\<lambda>attempt. Response 200 NoHeader ''- first release''),
      changelog_uniform = no_jitter,
      sha256 = toy_sha256,
      now_page = (\<lambda>i. ''2025-01-02T09:00:00''),
      now_changelog = ''2025-01-02T09:00:01'',
      manifest_json = (\<lambda>files. concat (map fst files))\<rparr>"

definition demo_final :: run_state where
  "demo_final =
     run_after_discovery demo_env stored_files stored_disk ''https://code.claude.com''
       [Get ''https://code.claude.com/docs/sitemap.xml'' 0] [''/docs/en/hooks'', ''/docs/en/setup'']"

text \<open>
  A run in which the page \<open>/docs/en/changelog\<close> and the changelog of the repository
  both derive the filename \<open>changelog.md\<close>.
\<close>

definition collision_files :: manifest_files where
  "collision_files =
     [(''changelog.md'',
       [(''original_url'', ''https://code.claude.com/docs/en/changelog''),
        (''hash'', toy_sha256 setup_page),
        (''last_updated'', ''2024-12-31T10:00:00'')])]"

definition collision_disk :: "string \<rightharpoonup> string" where
  "collision_disk = [''changelog.md'' \<mapsto> setup_page]"

definition collision_env :: env where
  "collision_env =
     \<lparr>probe = Some (''https://code.claude.com/docs/sitemap.xml'', ''https://code.claude.com''),
      sitemap = SitemapResponse 200
        (Parsed [Some ''https://code.claude.com/docs/en/changelog''] []),
      urlparse_path = path_after_host,
      page_respond = (\<lambda>i attempt. Response 200 NoHeader setup_page),
      page_uniform = (\<lambda>i. no_jitter),
      changelog_respond = (\<lambda>attempt. Response 200 NoHeader ''- first release''),
      changelog_uniform = no_jitter,
      sha256 = toy_sha256,
      now_page = (\<lambda>i. ''2025-01-02T09:00:00''),
      now_changelog = ''2025-01-02T09:00:01'',
      manifest_json = (\<lambda>files. concat (map fst files))\<rparr>"

definition collision_final :: run_state where
  "collision_final =
     run_after_discovery collision_env collision_files collision_disk ''https://code.claude.com''
       [Get ''https://code.claude.com/docs/sitemap.xml'' 0] [''/docs/en/changelog'']"

section \<open>Facts about the string primitives\<close>

lemma str_contains_sublist: "str_contains sub s = sublist sub s"
  by (induction s) (simp_all add: sublist_Cons_right)

lemma str_contains_char: "str_contains [c] s = (c \<in> set s)"
  by (induction s) auto

lemma split_from_none: "\<not> sublist sep s \<Longrightarrow> split_from sep cur s = [rev cur @ s]"
proof (induction s arbitrary: cur)
  case Nil
  then show ?case by simp
next
  case (Cons c cs)
  then have "\<not> prefix sep (c # cs)" and "\<not> sublist sep cs"
    by (auto simp: sublist_Cons_right)
  with Cons.IH [of "c # cur"] show ?case by simp
qed

lemma split_from_nonempty: "split_from sep cur s \<noteq> []"
  by (induction sep cur s rule: split_from.induct) auto

lemma split_from_last_decomp:
  "sep \<noteq> [] \<Longrightarrow> sublist sep s \<Longrightarrow> \<exists>pre. s = pre @ sep @ last (split_from sep cur s)"
proof (induction sep cur s rule: split_from.induct)
  case (1 sep cur)
  then show ?case by simp
next
  case (2 sep cur c cs)
  show ?case
  proof (cases "prefix sep (c # cs)")
    case True
    then obtain rest where rest: "c # cs = sep @ rest"
      by (auto simp: prefix_def)
    with \<open>sep \<noteq> []\<close> have dr: "drop (length sep - 1) cs = rest"
      by (cases sep) auto
    have step: "last (split_from sep cur (c # cs)) = last (split_from sep [] rest)"
      using True \<open>sep \<noteq> []\<close> dr by (simp add: split_from_nonempty)
    show ?thesis
    proof (cases "sublist sep rest")
      case True
      with 2 \<open>prefix sep (c # cs)\<close> dr
      obtain pre where "rest = pre @ sep @ last (split_from sep [] rest)"
        by auto
      then have "c # cs = (sep @ pre) @ sep @ last (split_from sep cur (c # cs))"
        using rest step by simp
      then show ?thesis by (rule exI)
    next
      case False
      then have "last (split_from sep [] rest) = rest"
        by (simp add: split_from_none)
      then have "c # cs = [] @ sep @ last (split_from sep cur (c # cs))"
        using rest step by simp
      then show ?thesis by (rule exI)
    qed
  next
    case False
    with 2 have "sublist sep cs"
      by (simp add: sublist_Cons_right)
    with 2 False obtain pre where "cs = pre @ sep @ last (split_from sep (c # cur) cs)"
      by auto
    moreover have "last (split_from sep cur (c # cs)) = last (split_from sep (c # cur) cs)"
      using False by simp
    ultimately have "c # cs = (c # pre) @ sep @ last (split_from sep cur (c # cs))"
      by simp
    then show ?thesis by (rule exI)
  qed
qed

lemma split_from_last_clean:
  "sep \<noteq> [] \<Longrightarrow> sublist sep s \<Longrightarrow> \<not> sublist sep (last (split_from sep cur s))"
proof (induction sep cur s rule: split_from.induct)
  case (1 sep cur)
  then show ?case by simp
next
  case (2 sep cur c cs)
  show ?case
  proof (cases "prefix sep (c # cs)")
    case True
    have ne: "split_from sep [] (drop (length sep - 1) cs) \<noteq> []"
      by (rule split_from_nonempty)
    show ?thesis
    proof (cases "sublist sep (drop (length sep - 1) cs)")
      case True
      with 2 \<open>prefix sep (c # cs)\<close> ne show ?thesis by simp
    next
      case False
      then show ?thesis
        using \<open>prefix sep (c # cs)\<close> \<open>sep \<noteq> []\<close> by (simp add: split_from_none)
    qed
  next
    case False
    with 2 have "sublist sep cs"
      by (simp add: sublist_Cons_right)
    with 2 False show ?thesis by simp
  qed
qed

lemma py_replace_char_absent: "new_c \<noteq> c \<Longrightarrow> c \<notin> set (py_replace [c] [new_c, new_c] s)"
  by (induction s) auto

lemma py_replace_char_id: "c \<notin> set s \<Longrightarrow> py_replace [c] new s = s"
  by (induction s) auto

section \<open>Filename derivation\<close>

lemma last_split_decomp:
  "p \<noteq> [] \<Longrightarrow> str_contains p s \<Longrightarrow>
     \<exists>pre. s = pre @ p @ last (py_split p s) \<and> \<not> sublist p (last (py_split p s))"
  unfolding py_split_def str_contains_sublist
  using split_from_last_decomp [of p s "[]"] split_from_last_clean [of p s "[]"] by blast

lemma strip_doc_prefix_selected:
  "[] \<notin> set ps \<Longrightarrow> selected_prefix ps u = Some p \<Longrightarrow>
     \<exists>pre. u = pre @ p @ strip_doc_prefix ps u \<and> \<not> sublist p (strip_doc_prefix ps u)"
proof (induction ps)
  case Nil
  then show ?case
    using last_split_decomp [of "''claude-code/''" u] by (auto split: if_splits)
next
  case (Cons q qs)
  show ?case
  proof (cases "str_contains q u")
    case True
    with Cons.prems have "p = q" "q \<noteq> []" by auto
    with True show ?thesis
      using last_split_decomp [of q u] by simp
  next
    case False
    with Cons show ?thesis by simp
  qed
qed

lemma strip_doc_prefix_unselected: "selected_prefix ps u = None \<Longrightarrow> strip_doc_prefix ps u = u"
  by (induction ps) (auto split: if_splits)

text \<open>
  C5. \<open>url_to_safe_filename\<close> is a function of its argument alone. Its result ends in
  \<open>.md\<close> and holds no \<open>/\<close>; it is the path without its documentation prefix, every
  \<open>/\<close> replaced by \<open>__\<close>, with \<open>.md\<close> appended unless already there; a path left
  without \<open>/\<close> only gets \<open>.md\<close> appended if missing. The prefix the function
  recognises is cut off together with all that precedes it, and does not occur in what
  is kept; a path with no recognised prefix is kept whole.
\<close>

theorem url_to_safe_filename_shape:
  "suffix ''.md'' (url_to_safe_filename url_path)
   \<and> CHR ''/'' \<notin> set (url_to_safe_filename url_path)
   \<and> url_to_safe_filename url_path =
       (let replaced = py_replace ''/'' ''__'' (strip_doc_prefix doc_prefixes url_path)
        in if suffix ''.md'' replaced then replaced else replaced @ ''.md'')
   \<and> (CHR ''/'' \<notin> set (strip_doc_prefix doc_prefixes url_path) \<longrightarrow>
        url_to_safe_filename url_path =
          (if suffix ''.md'' (strip_doc_prefix doc_prefixes url_path)
           then strip_doc_prefix doc_prefixes url_path
           else strip_doc_prefix doc_prefixes url_path @ ''.md''))
   \<and> (\<forall>p. selected_prefix doc_prefixes url_path = Some p \<longrightarrow>
        (\<exists>pre. url_path = pre @ p @ strip_doc_prefix doc_prefixes url_path
               \<and> \<not> sublist p (strip_doc_prefix doc_prefixes url_path)))
   \<and> (selected_prefix doc_prefixes url_path = None \<longrightarrow>
        strip_doc_prefix doc_prefixes url_path = url_path)"
proof -
  define path where "path = strip_doc_prefix doc_prefixes url_path"
  have eq: "url_to_safe_filename url_path =
       (let replaced = py_replace ''/'' ''__'' path
        in if suffix ''.md'' replaced then replaced else replaced @ ''.md'')"
    by (simp add: url_to_safe_filename_def Let_def path_def [symmetric] str_contains_char
        py_replace_char_id)
  have absent: "CHR ''/'' \<notin> set (py_replace ''/'' ''__'' path)"
    by (rule py_replace_char_absent) simp
  have c1: "suffix ''.md'' (url_to_safe_filename url_path)"
    unfolding eq Let_def by (simp add: suffix_def)
  have c2: "CHR ''/'' \<notin> set (url_to_safe_filename url_path)"
    unfolding eq Let_def using absent by simp
  have c4: "CHR ''/'' \<notin> set path \<longrightarrow>
        url_to_safe_filename url_path = (if suffix ''.md'' path then path else path @ ''.md'')"
    unfolding eq Let_def by (simp add: py_replace_char_id)
  have ne: "[] \<notin> set doc_prefixes"
    by (simp add: doc_prefixes_def)
  have c5: "\<forall>p. selected_prefix doc_prefixes url_path = Some p \<longrightarrow>
        (\<exists>pre. url_path = pre @ p @ path \<and> \<not> sublist p path)"
    unfolding path_def using strip_doc_prefix_selected [OF ne] by blast
  have c6: "selected_prefix doc_prefixes url_path = None \<longrightarrow> path = url_path"
    unfolding path_def by (simp add: strip_doc_prefix_unselected)
  show ?thesis
    unfolding path_def [symmetric] by (intro conjI c1 c2 eq c4 c5 c6)
qed

lemma url_to_safe_filename_examples:
  "url_to_safe_filename ''/docs/en/overview'' = ''overview.md''"
  "url_to_safe_filename ''/docs/en/overview.md'' = ''overview.md''"
  "url_to_safe_filename ''/en/docs/claude-code/sdk/python'' = ''sdk__python.md''"
  "url_to_safe_filename ''overview'' = ''overview.md''"
  by code_simp+

lemma selected_prefix_example:
  "selected_prefix doc_prefixes ''/docs/en/sdk/overview'' = Some ''/docs/en/''"
  by code_simp

lemma strip_doc_prefix_example:
  "strip_doc_prefix doc_prefixes ''/docs/en/sdk/overview'' = ''sdk/overview''"
  by code_simp

theorem url_to_safe_filename_shape_witness:
  "url_to_safe_filename ''/docs/en/sdk/overview'' = ''sdk__overview.md''
   \<and> selected_prefix doc_prefixes ''/docs/en/sdk/overview'' = Some ''/docs/en/''
   \<and> strip_doc_prefix doc_prefixes ''/docs/en/sdk/overview'' = ''sdk/overview''
   \<and> suffix ''.md'' (url_to_safe_filename ''/docs/en/sdk/overview'')
   \<and> CHR ''/'' \<notin> set (url_to_safe_filename ''/docs/en/sdk/overview'')
   \<and> (\<exists>pre. ''/docs/en/sdk/overview'' = pre @ ''/docs/en/'' @ ''sdk/overview'')"
proof -
  have a: "url_to_safe_filename ''/docs/en/sdk/overview'' = ''sdk__overview.md''"
    by code_simp
  note t = url_to_safe_filename_shape [of "''/docs/en/sdk/overview''"]
  from t have b: "suffix ''.md'' (url_to_safe_filename ''/docs/en/sdk/overview'')"
    and c: "CHR ''/'' \<notin> set (url_to_safe_filename ''/docs/en/sdk/overview'')"
    by blast+
  from t selected_prefix_example
  have "\<exists>pre. ''/docs/en/sdk/overview'' =
          pre @ ''/docs/en/'' @ strip_doc_prefix doc_prefixes ''/docs/en/sdk/overview''"
    by blast
  then have d: "\<exists>pre. ''/docs/en/sdk/overview'' = pre @ ''/docs/en/'' @ ''sdk/overview''"
    unfolding strip_doc_prefix_example .
  show ?thesis
    by (intro conjI a selected_prefix_example strip_doc_prefix_example b c d)
qed

section \<open>Content validation\<close>

lemma py_strip_sublist: "sublist (py_strip s) s"
proof -
  have "sublist (py_strip s) (dropWhile is_py_space s)"
    by (simp add: py_strip_def sublist_rev_left)
  moreover have "sublist (dropWhile is_py_space s) s"
    by simp
  ultimately show ?thesis
    by (rule sublist_order.order_trans)
qed

lemma prefix_strip_contained: "prefix indicator (py_strip line) \<Longrightarrow> sublist indicator line"
  using py_strip_sublist [of line] prefix_imp_sublist sublist_order.order_trans by blast

lemma line_has_indicator_iff:
  "line_has_indicator indicators line = list_ex (\<lambda>indicator. sublist indicator line) indicators"
  by (induction indicators) (auto simp: str_contains_sublist dest: prefix_strip_contained)

lemma count_indicator_lines_filter:
  "count_indicator_lines lines n = n + length (filter holds_indicator lines)"
  by (induction lines arbitrary: n) (simp_all add: holds_indicator_def line_has_indicator_iff)

text \<open>
  C6. \<open>validate_markdown_content\<close> raises exactly when the content is empty, starts
  with \<open><!DOCTYPE\<close>, has \<open><html\<close> in its first 100 characters, is shorter than 50
  characters once stripped, or has fewer than 3 lines, among its first 50, that hold a
  markdown indicator; every other content is accepted.
\<close>

theorem validate_markdown_content_rejects_iff:
  "(\<exists>e. validate_markdown_content content filename = Inl e) = spec_rejects content
   \<and> (validate_markdown_content content filename = Inr ()) = (\<not> spec_rejects content)"
  by (auto simp: validate_markdown_content_def spec_rejects_def Let_def str_contains_sublist
      count_indicator_lines_filter)

lemma validate_markdown_content_examples:
  "validate_markdown_content setup_page ''setup.md'' = Inr ()"
  "validate_markdown_content [] ''setup.md'' = Inl ReceivedHtml"
  "validate_markdown_content ''<!DOCTYPE html><html><body>Not found</body></html>'' ''setup.md'' =
     Inl ReceivedHtml"
  "validate_markdown_content ''# Title'' ''setup.md'' = Inl (ContentTooShort 7)"
  "validate_markdown_content
     ''This text is long enough to pass the length check but it has no markup.'' ''setup.md'' =
     Inl (NotMarkdown 0)"
  by code_simp+

section \<open>The retry loop\<close>

lemma gets_of_simps [simp]:
  "gets_of [] = []"
  "gets_of (Get url a # tr) = a # gets_of tr"
  "gets_of (Sleep d # tr) = gets_of tr"
  "gets_of (WriteFile f # tr) = gets_of tr"
  "gets_of (Unlink f # tr) = gets_of tr"
  "gets_of (xs @ ys) = gets_of xs @ gets_of ys"
  by (simp_all add: gets_of_def)

lemma on_request_exception_events:
  "on_request_exception fn u a e = (evs, x) \<Longrightarrow> evs = [] \<or> (\<exists>d. evs = [Sleep d])"
  by (auto simp: on_request_exception_def split: if_splits)

lemma on_rate_limit_events:
  "on_rate_limit h = (evs, x) \<Longrightarrow> evs = [] \<or> (\<exists>d. evs = [Sleep d])"
  by (auto simp: on_rate_limit_def split: retry_after.splits if_splits)

lemma fetch_attempt_events:
  "fetch_attempt r u fn a = (evs, x) \<Longrightarrow> evs = [] \<or> (\<exists>d. evs = [Sleep d])"
  unfolding fetch_attempt_def
  by (auto split: http_result.splits if_splits sum.splits
      dest: on_request_exception_events on_rate_limit_events)

lemma fetch_loop_Cons:
  "fetch_loop url r u fn (a # rest) =
     (Get url a # fst (fetch_attempt r u fn a) @
        (case snd (fetch_attempt r u fn a) of
           Some outcome \<Rightarrow> [] | None \<Rightarrow> fst (fetch_loop url r u fn rest)),
      (case snd (fetch_attempt r u fn a) of
         Some outcome \<Rightarrow> outcome | None \<Rightarrow> snd (fetch_loop url r u fn rest)))"
  by (cases "fetch_attempt r u fn a") (auto split: option.splits prod.splits)

declare fetch_loop.simps(2) [simp del]

lemma fetch_loop_starts_with_get:
  "fst (fetch_loop url r u fn as) = [] \<or> (\<exists>a tr. fst (fetch_loop url r u fn as) = Get url a # tr)"
  by (cases as) (simp_all add: fetch_loop_Cons)

lemma gets_of_attempt [simp]: "gets_of (fst (fetch_attempt r u fn a)) = []"
  using fetch_attempt_events [of r u fn a "fst (fetch_attempt r u fn a)" "snd (fetch_attempt r u fn a)"]
  by auto

lemma gets_of_fetch_loop_prefix: "prefix (gets_of (fst (fetch_loop url r u fn as))) as"
  by (induction as) (auto simp: fetch_loop_Cons split: option.splits)

lemma after_get_here:
  assumes "evs = [] \<or> (\<exists>d. evs = [Sleep d])"
    and "later = [] \<or> (\<exists>a tr. later = Get url a # tr)"
  shows "after_get k (Get url k # evs @ later) = evs"
  using assms by (auto simp: after_get_def)

lemma after_get_skip:
  assumes "evs = [] \<or> (\<exists>d. evs = [Sleep d])" and "a \<noteq> k"
  shows "after_get k (Get url a # evs @ later) = after_get k later"
  using assms by (auto simp: after_get_def)

lemma after_get_fetch_loop:
  "distinct as \<Longrightarrow> k \<in> set (gets_of (fst (fetch_loop url r u fn as))) \<Longrightarrow>
     after_get k (fst (fetch_loop url r u fn as)) = fst (fetch_attempt r u fn k)"
proof (induction as)
  case Nil
  then show ?case by simp
next
  case (Cons a rest)
  have evs: "fst (fetch_attempt r u fn a) = [] \<or> (\<exists>d. fst (fetch_attempt r u fn a) = [Sleep d])"
    using fetch_attempt_events [of r u fn a] by (metis prod.collapse)
  define later where "later = (case snd (fetch_attempt r u fn a) of
           Some outcome \<Rightarrow> [] | None \<Rightarrow> fst (fetch_loop url r u fn rest))"
  have later: "later = [] \<or> (\<exists>a tr. later = Get url a # tr)"
    unfolding later_def using fetch_loop_starts_with_get [of url r u fn rest]
    by (auto split: option.splits)
  have tr: "fst (fetch_loop url r u fn (a # rest)) = Get url a # fst (fetch_attempt r u fn a) @ later"
    by (simp add: fetch_loop_Cons later_def)
  show ?case
  proof (cases "a = k")
    case True
    then show ?thesis
      unfolding tr using after_get_here [OF evs later] by simp
  next
    case False
    with Cons.prems have k: "k \<in> set (gets_of later)"
      unfolding tr by simp
    then have "snd (fetch_attempt r u fn a) = None" and "later = fst (fetch_loop url r u fn rest)"
      unfolding later_def by (auto split: option.splits)
    with Cons k have "after_get k later = fst (fetch_attempt r u fn k)"
      by simp
    then show ?thesis
      unfolding tr using after_get_skip [OF evs False] by simp
  qed
qed

lemma next_get_fetch_loop:
  "distinct (pre @ k # k' # post) \<Longrightarrow>
   k \<in> set (gets_of (fst (fetch_loop url r u fn (pre @ k # k' # post)))) \<Longrightarrow>
   snd (fetch_attempt r u fn k) = None \<Longrightarrow>
   k' \<in> set (gets_of (fst (fetch_loop url r u fn (pre @ k # k' # post))))"
proof (induction pre)
  case Nil
  then show ?case by (simp add: fetch_loop_Cons)
next
  case (Cons p pre)
  from Cons.prems(1) have "p \<noteq> k" by auto
  with Cons.prems(2) have "snd (fetch_attempt r u fn p) = None"
    by (auto simp: fetch_loop_Cons split: option.splits)
  with Cons \<open>p \<noteq> k\<close> show ?case
    by (simp add: fetch_loop_Cons)
qed

lemma attempts_split:
  "Suc k < n \<Longrightarrow> [0..<n] = [0..<k] @ k # Suc k # [Suc (Suc k)..<n]"
  by (metis Suc_lessD le0 le_add_diff_inverse less_imp_le_nat upt_add_eq_append upt_conv_Cons)

lemma transport_failure_attempt:
  "transport_failure (r k) \<Longrightarrow> k < MAX_RETRIES - 1 \<Longrightarrow>
     fetch_attempt r u fn k =
       ([Sleep (real (backoff_delay k) * random_uniform (1 / 2) 1 (u k))], None)"
  by (cases "r k") (auto simp: fetch_attempt_def on_request_exception_def)

lemma random_uniform_bounds:
  "1 / 2 \<le> random_uniform (1 / 2) 1 r \<and> random_uniform (1 / 2) 1 r \<le> 1"
  using Rep_unit_draw [of r] by (simp add: random_uniform_def)

lemma backoff_delay_value: "backoff_delay k = min (2 * 2 ^ k) 30"
  by (simp add: backoff_delay_def RETRY_DELAY_def MAX_RETRY_DELAY_def)


lemma attempts_distinct: "distinct [0..<MAX_RETRIES]"
  by simp

lemma rate_limit_attempt:
  "r k = Response 429 header content \<Longrightarrow>
   header = NoHeader \<and> n = 60 \<or> header = HeaderInt n \<and> 0 \<le> n \<and> n < SLEEP_OVERFLOW \<Longrightarrow>
     fetch_attempt r u fn k = ([Sleep (of_int n)], None)"
  by (auto simp: fetch_attempt_def on_rate_limit_def)

lemma rate_limit_attempt_raises:
  "r k = Response 429 header content \<Longrightarrow>
     fetch_attempt r u fn k =
       (case header of
          NoHeader \<Rightarrow> ([Sleep 60], None)
        | HeaderInt n \<Rightarrow>
            if n < 0 then ([], Some (Raises (ValueError NegativeSleep)))
            else if SLEEP_OVERFLOW \<le> n then ([], Some (Raises OverflowError))
            else ([Sleep (of_int n)], None)
        | HeaderNotInt \<Rightarrow> ([], Some (Raises (ValueError BadRetryAfter))))"
  by (simp add: fetch_attempt_def on_rate_limit_def)

lemma fetch_loop_stops:
  "distinct as \<Longrightarrow> k \<in> set (gets_of (fst (fetch_loop url r u fn as))) \<Longrightarrow>
   snd (fetch_attempt r u fn k) = Some outcome \<Longrightarrow>
     snd (fetch_loop url r u fn as) = outcome
     \<and> last (gets_of (fst (fetch_loop url r u fn as))) = k"
proof (induction as)
  case Nil
  then show ?case by simp
next
  case (Cons a rest)
  show ?case
  proof (cases "a = k")
    case True
    with Cons.prems(3) show ?thesis
      by (simp add: fetch_loop_Cons)
  next
    case False
    with Cons.prems(2) have none: "snd (fetch_attempt r u fn a) = None"
      and k: "k \<in> set (gets_of (fst (fetch_loop url r u fn rest)))"
      by (auto simp: fetch_loop_Cons split: option.splits)
    with Cons have "snd (fetch_loop url r u fn rest) = outcome
        \<and> last (gets_of (fst (fetch_loop url r u fn rest))) = k"
      by simp
    moreover have "gets_of (fst (fetch_loop url r u fn rest)) \<noteq> []"
      using k by auto
    ultimately show ?thesis
      using none by (simp add: fetch_loop_Cons)
  qed
qed

lemma backoff_delay_capped: "backoff_delay j \<le> MAX_RETRY_DELAY"
  by (simp add: backoff_delay_def)

lemma backoff_delay_doubles:
  "RETRY_DELAY * 2 ^ Suc j \<le> MAX_RETRY_DELAY \<Longrightarrow> backoff_delay (Suc j) = 2 * backoff_delay j"
  by (simp add: backoff_delay_def min_def)

lemma backoff_delay_in_loop: "j < MAX_RETRIES - 1 \<Longrightarrow> backoff_delay j = 2 * 2 ^ j"
proof -
  assume "j < MAX_RETRIES - 1"
  then have "j = 0 \<or> j = 1"
    by (auto simp: MAX_RETRIES_def)
  then show ?thesis
    by (auto simp: backoff_delay_value)
qed

text \<open>
  C9. After a transport failure at attempt \<open>k\<close> that is not the last one, the fetcher
  sleeps once before the next attempt, for \<open>min(2 * 2^k, 30)\<close> seconds times the value
  of \<open>random.uniform(0.5, 1.0)\<close>, and then makes attempt \<open>k + 1\<close>. That value lies
  between 0.5 and 1, so the sleep lies between half the delay and the delay. The delay
  before jitter never exceeds 30 and doubles from one attempt to the next.
\<close>

theorem backoff_after_transport_failure:
  assumes "k \<in> set (gets_of (fst (fetch_markdown_content path respond uniform base_url)))"
    and "transport_failure (respond k)"
    and "k < MAX_RETRIES - 1"
  shows "after_get k (fst (fetch_markdown_content path respond uniform base_url)) =
           [Sleep (real (min (2 * 2 ^ k) 30) * random_uniform (1 / 2) 1 (uniform k))]
       \<and> Suc k \<in> set (gets_of (fst (fetch_markdown_content path respond uniform base_url)))
       \<and> 1 / 2 \<le> random_uniform (1 / 2) 1 (uniform k)
       \<and> random_uniform (1 / 2) 1 (uniform k) \<le> 1
       \<and> real (min (2 * 2 ^ k) 30) / 2
            \<le> real (min (2 * 2 ^ k) 30) * random_uniform (1 / 2) 1 (uniform k)
       \<and> real (min (2 * 2 ^ k) 30) * random_uniform (1 / 2) 1 (uniform k)
            \<le> real (min (2 * 2 ^ k) 30)
       \<and> backoff_delay k = min (2 * 2 ^ k) 30
       \<and> (\<forall>j. backoff_delay j \<le> 30)
       \<and> (\<forall>j. Suc j < MAX_RETRIES - 1 \<longrightarrow> backoff_delay (Suc j) = 2 * backoff_delay j)
       \<and> (\<forall>j. 2 * 2 ^ Suc j \<le> (30::nat) \<longrightarrow> backoff_delay (Suc j) = 2 * backoff_delay j)"
proof -
  let ?fn = "url_to_safe_filename path"
  let ?url = "markdown_url base_url path"
  let ?tr = "fst (fetch_markdown_content path respond uniform base_url)"
  let ?j = "random_uniform (1 / 2) 1 (uniform k)"
  have step: "fetch_attempt respond uniform ?fn k = ([Sleep (real (backoff_delay k) * ?j)], None)"
    using assms(2,3) by (rule transport_failure_attempt)
  have k: "k \<in> set (gets_of (fst (fetch_loop ?url respond uniform ?fn [0..<MAX_RETRIES])))"
    using assms(1) by (simp add: fetch_markdown_content_def)
  have "after_get k (fst (fetch_loop ?url respond uniform ?fn [0..<MAX_RETRIES])) =
          fst (fetch_attempt respond uniform ?fn k)"
    using attempts_distinct k by (rule after_get_fetch_loop)
  then have a: "after_get k ?tr = [Sleep (real (min (2 * 2 ^ k) 30) * ?j)]"
    by (simp add: fetch_markdown_content_def step backoff_delay_value)
  have split: "[0..<MAX_RETRIES] = [0..<k] @ k # Suc k # [Suc (Suc k)..<MAX_RETRIES]"
    using assms(3) by (intro attempts_split) simp
  have "Suc k \<in> set (gets_of (fst (fetch_loop ?url respond uniform ?fn
          ([0..<k] @ k # Suc k # [Suc (Suc k)..<MAX_RETRIES]))))"
    using attempts_distinct k step unfolding split by (intro next_get_fetch_loop) simp_all
  then have b: "Suc k \<in> set (gets_of ?tr)"
    by (simp add: fetch_markdown_content_def split [symmetric])
  have lo: "1 / 2 \<le> ?j" and hi: "?j \<le> 1"
    using random_uniform_bounds [of "uniform k"] by simp_all
  have nonneg: "0 \<le> real (min (2 * 2 ^ k) 30)"
    by simp
  have "real (min (2 * 2 ^ k) 30) * (1 / 2) \<le> real (min (2 * 2 ^ k) 30) * ?j"
    using lo nonneg by (rule mult_left_mono)
  then have c1: "real (min (2 * 2 ^ k) 30) / 2 \<le> real (min (2 * 2 ^ k) 30) * ?j"
    by simp
  have "real (min (2 * 2 ^ k) 30) * ?j \<le> real (min (2 * 2 ^ k) 30) * 1"
    using hi nonneg by (rule mult_left_mono)
  then have c2: "real (min (2 * 2 ^ k) 30) * ?j \<le> real (min (2 * 2 ^ k) 30)"
    by simp
  have d: "\<forall>j. backoff_delay j \<le> 30"
    using backoff_delay_capped by (simp add: MAX_RETRY_DELAY_def)
  have e: "\<forall>j. Suc j < MAX_RETRIES - 1 \<longrightarrow> backoff_delay (Suc j) = 2 * backoff_delay j"
    by (simp add: MAX_RETRIES_def backoff_delay_value)
  have f: "\<forall>j. 2 * 2 ^ Suc j \<le> (30::nat) \<longrightarrow> backoff_delay (Suc j) = 2 * backoff_delay j"
    using backoff_delay_doubles by (simp add: RETRY_DELAY_def MAX_RETRY_DELAY_def)
  show ?thesis
    by (intro conjI a b lo hi c1 c2 backoff_delay_value d e f)
qed

lemma fails_then_succeeds_gets:
  "gets_of (fst (fetch_markdown_content ''/docs/en/setup'' fails_then_succeeds
     jitter_three_quarters ''https://code.claude.com'')) = [0, 1]"
  by code_simp

lemma jitter_three_quarters_value: "random_uniform (1 / 2) 1 (jitter_three_quarters k) = 3 / 4"
  by (simp add: random_uniform_def jitter_three_quarters_def draw_half.rep_eq)

lemma no_jitter_value: "random_uniform (1 / 2) 1 (no_jitter k) = 1"
  by (simp add: random_uniform_def no_jitter_def draw_one.rep_eq)

theorem backoff_after_transport_failure_witness:
  "after_get 0 (fst (fetch_markdown_content ''/docs/en/setup'' fails_then_succeeds
      jitter_three_quarters ''https://code.claude.com'')) = [Sleep (3 / 2)]
   \<and> Suc 0 \<in> set (gets_of (fst (fetch_markdown_content ''/docs/en/setup'' fails_then_succeeds
      jitter_three_quarters ''https://code.claude.com'')))
   \<and> transport_failure (fails_then_succeeds 0) \<and> 0 < MAX_RETRIES - 1"
proof -
  have h1: "0 \<in> set (gets_of (fst (fetch_markdown_content ''/docs/en/setup'' fails_then_succeeds
      jitter_three_quarters ''https://code.claude.com'')))"
    by (simp add: fails_then_succeeds_gets)
  have h2: "transport_failure (fails_then_succeeds 0)"
    by (simp add: fails_then_succeeds_def)
  have h3: "0 < MAX_RETRIES - 1"
    by (simp add: MAX_RETRIES_def)
  note t = backoff_after_transport_failure [OF h1 h2 h3]
  have a: "after_get 0 (fst (fetch_markdown_content ''/docs/en/setup'' fails_then_succeeds
      jitter_three_quarters ''https://code.claude.com'')) = [Sleep (3 / 2)]"
    using t [THEN conjunct1] by (simp add: jitter_three_quarters_value)
  note b = t [THEN conjunct2, THEN conjunct1]
  show ?thesis
    by (intro conjI a b h2 h3)
qed

lemma fetch_attempt_not_none:
  "snd (fetch_attempt r u fn a) \<noteq> Some ReturnsNone"
  by (auto simp: fetch_attempt_def on_request_exception_def on_rate_limit_def
      split: http_result.splits retry_after.splits sum.splits)

lemma fetch_loop_returns_none_iff:
  "snd (fetch_loop url r u fn as) = ReturnsNone \<longleftrightarrow>
     list_all (\<lambda>a. snd (fetch_attempt r u fn a) = None) as"
  using fetch_attempt_not_none [of r u fn]
  by (induction as) (auto simp: fetch_loop_Cons split: option.splits)

lemma last_attempt_continues_iff:
  "snd (fetch_attempt r u fn (MAX_RETRIES - 1)) = None \<longleftrightarrow>
     (\<exists>content. r (MAX_RETRIES - 1) = Response 429 NoHeader content)
     \<or> (\<exists>n content. 0 \<le> n \<and> n < SLEEP_OVERFLOW
           \<and> r (MAX_RETRIES - 1) = Response 429 (HeaderInt n) content)"
  by (auto simp: fetch_attempt_def on_request_exception_def on_rate_limit_def
      split: http_result.splits retry_after.splits sum.splits)

text \<open>
  C3, as the code has it. After a 429 response the fetcher sleeps 60 seconds when there
  is no \<open>Retry-After\<close> header, and \<open>n\<close> seconds when the header is an integer \<open>n\<close>
  with \<open>0 \<le> n < 9223372037\<close>, once and before any further request. A header that is
  no integer, a negative one and one from 9223372037 on end the fetch at once, without
  a sleep and without a further request, by a \<open>ValueError\<close> or an \<open>OverflowError\<close>.
  The wait is one of the attempts of the loop: a fetch makes at most \<open>MAX_RETRIES\<close>
  requests, 429 responses included, and a transport failure at a later attempt \<open>j\<close>
  backs off by the delay of the index \<open>j\<close>, which counts the rate-limited attempts too.
\<close>

theorem rate_limit_wait_uses_attempt:
  assumes "k \<in> set (gets_of (fst (fetch_markdown_content path respond uniform base_url)))"
    and "respond k = Response 429 header content"
  shows "(header = NoHeader \<longrightarrow>
            after_get k (fst (fetch_markdown_content path respond uniform base_url)) = [Sleep 60])
       \<and> (\<forall>n. header = HeaderInt n \<and> 0 \<le> n \<and> n < 9223372037 \<longrightarrow>
            after_get k (fst (fetch_markdown_content path respond uniform base_url)) =
              [Sleep (of_int n)])
       \<and> (header = HeaderNotInt \<longrightarrow>
            after_get k (fst (fetch_markdown_content path respond uniform base_url)) = []
            \<and> last (gets_of (fst (fetch_markdown_content path respond uniform base_url))) = k
            \<and> snd (fetch_markdown_content path respond uniform base_url) =
                Raises (ValueError BadRetryAfter))
       \<and> (\<forall>n. header = HeaderInt n \<and> n < 0 \<longrightarrow>
            after_get k (fst (fetch_markdown_content path respond uniform base_url)) = []
            \<and> last (gets_of (fst (fetch_markdown_content path respond uniform base_url))) = k
            \<and> snd (fetch_markdown_content path respond uniform base_url) =
                Raises (ValueError NegativeSleep))
       \<and> (\<forall>n. header = HeaderInt n \<and> 9223372037 \<le> n \<longrightarrow>
            after_get k (fst (fetch_markdown_content path respond uniform base_url)) = []
            \<and> last (gets_of (fst (fetch_markdown_content path respond uniform base_url))) = k
            \<and> snd (fetch_markdown_content path respond uniform base_url) = Raises OverflowError)
       \<and> prefix (gets_of (fst (fetch_markdown_content path respond uniform base_url)))
           [0..<MAX_RETRIES]
       \<and> length (gets_of (fst (fetch_markdown_content path respond uniform base_url))) \<le> MAX_RETRIES
       \<and> (\<forall>j. k < j \<and> j < MAX_RETRIES - 1 \<and> transport_failure (respond j)
              \<and> j \<in> set (gets_of (fst (fetch_markdown_content path respond uniform base_url)))
            \<longrightarrow> after_get j (fst (fetch_markdown_content path respond uniform base_url)) =
                  [Sleep (real (min (2 * 2 ^ j) 30) * random_uniform (1 / 2) 1 (uniform j))])"
proof -
  let ?fn = "url_to_safe_filename path"
  let ?url = "markdown_url base_url path"
  let ?tr = "fst (fetch_markdown_content path respond uniform base_url)"
  let ?out = "snd (fetch_markdown_content path respond uniform base_url)"
  have tr: "?tr = fst (fetch_loop ?url respond uniform ?fn [0..<MAX_RETRIES])"
    and out: "?out = snd (fetch_loop ?url respond uniform ?fn [0..<MAX_RETRIES])"
    by (simp_all add: fetch_markdown_content_def)
  have step: "fetch_attempt respond uniform ?fn k =
       (case header of
          NoHeader \<Rightarrow> ([Sleep 60], None)
        | HeaderInt n \<Rightarrow>
            if n < 0 then ([], Some (Raises (ValueError NegativeSleep)))
            else if SLEEP_OVERFLOW \<le> n then ([], Some (Raises OverflowError))
            else ([Sleep (of_int n)], None)
        | HeaderNotInt \<Rightarrow> ([], Some (Raises (ValueError BadRetryAfter))))"
    using assms(2) by (rule rate_limit_attempt_raises)
  have after: "after_get k ?tr = fst (fetch_attempt respond uniform ?fn k)"
    using attempts_distinct assms(1) unfolding tr by (rule after_get_fetch_loop)
  have stops: "\<And>outcome. snd (fetch_attempt respond uniform ?fn k) = Some outcome \<Longrightarrow>
      ?out = outcome \<and> last (gets_of ?tr) = k"
    using attempts_distinct assms(1) unfolding tr out by (rule fetch_loop_stops)
  have a: "header = NoHeader \<longrightarrow> after_get k ?tr = [Sleep 60]"
    using step by (simp add: after)
  have b: "\<forall>n. header = HeaderInt n \<and> 0 \<le> n \<and> n < 9223372037 \<longrightarrow>
      after_get k ?tr = [Sleep (of_int n)]"
    using step by (simp add: after SLEEP_OVERFLOW_def)
  have c: "header = HeaderNotInt \<longrightarrow>
      after_get k ?tr = [] \<and> last (gets_of ?tr) = k \<and> ?out = Raises (ValueError BadRetryAfter)"
    using step stops [of "Raises (ValueError BadRetryAfter)"] by (simp add: after)
  have d: "\<forall>n. header = HeaderInt n \<and> n < 0 \<longrightarrow>
      after_get k ?tr = [] \<and> last (gets_of ?tr) = k \<and> ?out = Raises (ValueError NegativeSleep)"
    using step stops [of "Raises (ValueError NegativeSleep)"] by (simp add: after)
  have e: "\<forall>n. header = HeaderInt n \<and> 9223372037 \<le> n \<longrightarrow>
      after_get k ?tr = [] \<and> last (gets_of ?tr) = k \<and> ?out = Raises OverflowError"
    using step stops [of "Raises OverflowError"] by (simp add: after SLEEP_OVERFLOW_def)
  have f: "prefix (gets_of ?tr) [0..<MAX_RETRIES]"
    unfolding tr by (rule gets_of_fetch_loop_prefix)
  then have g: "length (gets_of ?tr) \<le> MAX_RETRIES"
    using prefix_length_le by fastforce
  have h: "\<forall>j. k < j \<and> j < MAX_RETRIES - 1 \<and> transport_failure (respond j) \<and> j \<in> set (gets_of ?tr)
            \<longrightarrow> after_get j ?tr =
              [Sleep (real (min (2 * 2 ^ j) 30) * random_uniform (1 / 2) 1 (uniform j))]"
  proof (intro allI impI)
    fix j
    assume j: "k < j \<and> j < MAX_RETRIES - 1 \<and> transport_failure (respond j) \<and> j \<in> set (gets_of ?tr)"
    then have "fetch_attempt respond uniform ?fn j =
        ([Sleep (real (backoff_delay j) * random_uniform (1 / 2) 1 (uniform j))], None)"
      by (intro transport_failure_attempt) simp_all
    moreover have "after_get j (fst (fetch_loop ?url respond uniform ?fn [0..<MAX_RETRIES])) =
          fst (fetch_attempt respond uniform ?fn j)"
      using attempts_distinct j unfolding tr by (intro after_get_fetch_loop) simp_all
    ultimately show "after_get j ?tr =
        [Sleep (real (min (2 * 2 ^ j) 30) * random_uniform (1 / 2) 1 (uniform j))]"
      by (simp add: tr backoff_delay_value)
  qed
  show ?thesis
    by (intro conjI a b c d e f g h)
qed

lemma rate_limited_once_run:
  "fetch_markdown_content ''/docs/en/setup'' rate_limited_once no_jitter ''https://code.claude.com'' =
     ([Get ''https://code.claude.com/docs/en/setup.md'' 0, Sleep 5,
       Get ''https://code.claude.com/docs/en/setup.md'' 1, Sleep 4,
       Get ''https://code.claude.com/docs/en/setup.md'' 2],
      Raises (FetchFailed ''setup.md'' 3 (TransportError ''timeout'')))"
  by code_simp


lemma rate_limited_overflow_run:
  "fetch_markdown_content ''/docs/en/setup'' rate_limited_overflow no_jitter ''https://code.claude.com'' =
     ([Get ''https://code.claude.com/docs/en/setup.md'' 0], Raises OverflowError)"
  by code_simp

theorem rate_limit_wait_uses_attempt_witness:
  "after_get 0 (fst (fetch_markdown_content ''/docs/en/setup'' rate_limited_once no_jitter
      ''https://code.claude.com'')) = [Sleep 5]
   \<and> length (gets_of (fst (fetch_markdown_content ''/docs/en/setup'' rate_limited_once no_jitter
      ''https://code.claude.com''))) \<le> 3
   \<and> after_get 1 (fst (fetch_markdown_content ''/docs/en/setup'' rate_limited_once no_jitter
      ''https://code.claude.com'')) = [Sleep 4]
   \<and> rate_limited_once 0 = Response 429 (HeaderInt 5) []
   \<and> transport_failure (rate_limited_once 1)
   \<and> rate_limited_overflow 0 = Response 429 (HeaderInt 100000000000000000000) []
   \<and> after_get 0 (fst (fetch_markdown_content ''/docs/en/setup'' rate_limited_overflow no_jitter
      ''https://code.claude.com'')) = []
   \<and> last (gets_of (fst (fetch_markdown_content ''/docs/en/setup'' rate_limited_overflow no_jitter
      ''https://code.claude.com''))) = 0
   \<and> snd (fetch_markdown_content ''/docs/en/setup'' rate_limited_overflow no_jitter
      ''https://code.claude.com'') = Raises OverflowError"
proof -
  let ?tr = "fst (fetch_markdown_content ''/docs/en/setup'' rate_limited_once no_jitter
      ''https://code.claude.com'')"
  have gets: "gets_of ?tr = [0, 1, 2]"
    by (simp add: rate_limited_once_run)
  have h1: "0 \<in> set (gets_of ?tr)"
    by (simp add: gets)
  have h2: "rate_limited_once 0 = Response 429 (HeaderInt 5) []"
    by (simp add: rate_limited_once_def)
  have h3: "HeaderInt 5 = HeaderInt 5 \<and> (0::int) \<le> 5 \<and> (5::int) < 9223372037"
    by simp
  have h4: "transport_failure (rate_limited_once 1)"
    by (simp add: rate_limited_once_def)
  have h5: "(0::nat) < 1 \<and> 1 < MAX_RETRIES - 1 \<and> transport_failure (rate_limited_once 1)
      \<and> 1 \<in> set (gets_of ?tr)"
    using h4 by (simp add: gets MAX_RETRIES_def)
  note t = rate_limit_wait_uses_attempt [OF h1 h2]
  have a: "after_get 0 ?tr = [Sleep 5]"
    using t [THEN conjunct2, THEN conjunct1, THEN spec, THEN mp, OF h3] by simp
  have b: "length (gets_of ?tr) \<le> 3"
    by (simp add: gets)
  have "after_get 1 ?tr = [Sleep (real (min (2 * 2 ^ 1) 30) * random_uniform (1 / 2) 1 (no_jitter 1))]"
    by (rule t [THEN conjunct2, THEN conjunct2, THEN conjunct2, THEN conjunct2, THEN conjunct2,
          THEN conjunct2, THEN conjunct2, THEN spec, THEN mp, OF h5])
  then have c: "after_get 1 ?tr = [Sleep 4]"
    by (simp add: no_jitter_value)
  let ?tr' = "fst (fetch_markdown_content ''/docs/en/setup'' rate_limited_overflow no_jitter
      ''https://code.claude.com'')"
  have o1: "0 \<in> set (gets_of ?tr')"
    by (simp add: rate_limited_overflow_run)
  have o2: "rate_limited_overflow 0 = Response 429 (HeaderInt 100000000000000000000) []"
    by (simp add: rate_limited_overflow_def)
  have o3: "HeaderInt 100000000000000000000 = HeaderInt 100000000000000000000
      \<and> (9223372037::int) \<le> 100000000000000000000"
    by simp
  note u = rate_limit_wait_uses_attempt [OF o1 o2, THEN conjunct2, THEN conjunct2, THEN conjunct2,
      THEN conjunct2, THEN conjunct1, THEN spec, THEN mp, OF o3]
  show ?thesis
    by (intro conjI a b c h2 h4 o2 u [THEN conjunct1] u [THEN conjunct2, THEN conjunct1]
        u [THEN conjunct2, THEN conjunct2])
qed

text \<open>
  C3 as the specification states it fails. One 429 (\<open>Retry-After: 5\<close>) followed by
  transport failures: the fetch gives up after three requests, of which only two were
  transport failures, so the 429 did use up one attempt of the budget; and the first
  transport failure backs off by the delay of attempt 1, four seconds, not by the two
  seconds of a first backoff, so the 429 did advance the delay growth.
\<close>

theorem rate_limit_counts_counterexample:
  "fetch_markdown_content ''/docs/en/setup'' rate_limited_once no_jitter ''https://code.claude.com'' =
     ([Get ''https://code.claude.com/docs/en/setup.md'' 0, Sleep 5,
       Get ''https://code.claude.com/docs/en/setup.md'' 1, Sleep 4,
       Get ''https://code.claude.com/docs/en/setup.md'' 2],
      Raises (FetchFailed ''setup.md'' 3 (TransportError ''timeout'')))
   \<and> rate_limited (rate_limited_once 0)
   \<and> length (filter transport_failure (map rate_limited_once [0, 1, 2])) = 2
   \<and> after_get 1 (fst (fetch_markdown_content ''/docs/en/setup'' rate_limited_once no_jitter
        ''https://code.claude.com'')) =
       [Sleep (real (backoff_delay 1) * random_uniform (1 / 2) 1 (no_jitter 1))]
   \<and> after_get 1 (fst (fetch_markdown_content ''/docs/en/setup'' rate_limited_once no_jitter
        ''https://code.claude.com'')) \<noteq>
       [Sleep (real (backoff_delay 0) * random_uniform (1 / 2) 1 (no_jitter 1))]"
proof -
  have a: "rate_limited (rate_limited_once 0)"
    by (simp add: rate_limited_once_def)
  have b: "length (filter transport_failure (map rate_limited_once [0, 1, 2])) = 2"
    by (simp add: rate_limited_once_def)
  have c: "after_get 1 (fst (fetch_markdown_content ''/docs/en/setup'' rate_limited_once no_jitter
        ''https://code.claude.com'')) = [Sleep 4]"
    unfolding rate_limited_once_run by (simp add: after_get_def)
  have d: "real (backoff_delay 1) * random_uniform (1 / 2) 1 (no_jitter 1) = 4"
      "real (backoff_delay 0) * random_uniform (1 / 2) 1 (no_jitter 1) = 2"
    by (simp_all add: backoff_delay_value no_jitter_value)
  show ?thesis
    unfolding c d by (intro conjI rate_limited_once_run a b) simp_all
qed

text \<open>
  C4 fails on the code. When the last attempt of the loop is answered by a 429, the
  \<open>continue\<close> ends the loop and the function runs off its end: it returns \<open>None\<close>,
  neither a pair nor an exception. Three 429 responses do that, and so do two
  transport failures followed by a 429.
\<close>

theorem fetch_markdown_content_returns_none:
  "fetch_markdown_content ''/docs/en/setup'' always_rate_limited no_jitter ''https://code.claude.com'' =
     ([Get ''https://code.claude.com/docs/en/setup.md'' 0, Sleep 60,
       Get ''https://code.claude.com/docs/en/setup.md'' 1, Sleep 60,
       Get ''https://code.claude.com/docs/en/setup.md'' 2, Sleep 60],
      ReturnsNone)
   \<and> fetch_markdown_content ''/docs/en/setup'' fails_then_rate_limited no_jitter ''https://code.claude.com'' =
     ([Get ''https://code.claude.com/docs/en/setup.md'' 0, Sleep 2,
       Get ''https://code.claude.com/docs/en/setup.md'' 1, Sleep 4,
       Get ''https://code.claude.com/docs/en/setup.md'' 2, Sleep 5],
      ReturnsNone)"
  by code_simp

lemma returns_none_iff_all_continue:
  "snd (fetch_markdown_content path respond uniform base_url) = ReturnsNone \<longleftrightarrow>
     list_all (\<lambda>a. snd (fetch_attempt respond uniform (url_to_safe_filename path) a) = None)
       [0..<MAX_RETRIES]"
  by (simp add: fetch_markdown_content_def fetch_loop_returns_none_iff)

text \<open>The part of C4 that holds: three transport failures end in the terminal error,
  which embeds the error of the last attempt.\<close>

lemma transport_failure_continues:
  "transport_failure (r k) \<Longrightarrow> k < MAX_RETRIES - 1 \<Longrightarrow> snd (fetch_attempt r u fn k) = None"
  by (simp add: transport_failure_attempt)

lemma transport_failure_last_attempt:
  "transport_failure (r k) \<Longrightarrow> \<not> k < MAX_RETRIES - 1 \<Longrightarrow>
     fetch_attempt r u fn k = ([], Some (Raises (FetchFailed fn MAX_RETRIES (error_of (r k)))))"
  by (cases "r k") (auto simp: fetch_attempt_def on_request_exception_def)

lemma all_transport_failures_raise:
  assumes "transport_failure (respond 0)" and "transport_failure (respond 1)"
    and "transport_failure (respond 2)"
  shows "fetch_markdown_content path respond uniform base_url =
     ([Get (markdown_url base_url path) 0, Sleep (2 * random_uniform (1 / 2) 1 (uniform 0)),
       Get (markdown_url base_url path) 1, Sleep (4 * random_uniform (1 / 2) 1 (uniform 1)),
       Get (markdown_url base_url path) 2],
      Raises (FetchFailed (url_to_safe_filename path) 3 (error_of (respond 2))))"
proof -
  have a: "[0..<MAX_RETRIES] = [0, 1, 2]"
    by (simp add: MAX_RETRIES_def upt_rec)
  have s0: "fetch_attempt respond uniform (url_to_safe_filename path) 0 =
      ([Sleep (2 * random_uniform (1 / 2) 1 (uniform 0))], None)"
    using transport_failure_attempt [of respond 0 uniform "url_to_safe_filename path"] assms(1)
    by (simp add: MAX_RETRIES_def backoff_delay_value)
  have s1: "fetch_attempt respond uniform (url_to_safe_filename path) 1 =
      ([Sleep (4 * random_uniform (1 / 2) 1 (uniform 1))], None)"
    using transport_failure_attempt [of respond 1 uniform "url_to_safe_filename path"] assms(2)
    by (simp add: MAX_RETRIES_def backoff_delay_value)
  have s2: "fetch_attempt respond uniform (url_to_safe_filename path) 2 =
      ([], Some (Raises (FetchFailed (url_to_safe_filename path) 3 (error_of (respond 2)))))"
    using transport_failure_last_attempt [of respond 2 uniform "url_to_safe_filename path"] assms(3)
    by (simp add: MAX_RETRIES_def)
  show ?thesis
    by (simp add: fetch_markdown_content_def a fetch_loop_Cons s0 s1 [unfolded One_nat_def] s2)
qed

section \<open>Page discovery\<close>

lemma get_fallback_pages_length: "length get_fallback_pages = 13"
  by (simp add: get_fallback_pages_def)

lemma get_fallback_pages_nonempty: "get_fallback_pages \<noteq> []"
  by (simp add: get_fallback_pages_def)

text \<open>
  C7, as the code has it. \<open>discover_claude_code_pages\<close> returns the fallback list
  when the GET of the sitemap raises, when the status is an error status, when the XML
  does not parse and when a URL of the sitemap cannot be parsed. A sitemap that parses
  and lists no URL gives the empty list, not the fallback. The fallback list is a
  constant of 13 paths; the only request of the function is the one GET of the sitemap.
\<close>

theorem discover_claude_code_pages_fallback:
  "discover_claude_code_pages SitemapGetRaised urlparse sitemap_url =
     ([Get sitemap_url 0], get_fallback_pages)
   \<and> (is_error_status status \<longrightarrow>
        discover_claude_code_pages (SitemapResponse status xml) urlparse sitemap_url =
          ([Get sitemap_url 0], get_fallback_pages))
   \<and> discover_claude_code_pages (SitemapResponse status ParseError) urlparse sitemap_url =
        ([Get sitemap_url 0], get_fallback_pages)
   \<and> (\<not> is_error_status status
        \<and> collect_pages urlparse
             (if collect_locs ns = [] then collect_locs plain else collect_locs ns) = None \<longrightarrow>
        discover_claude_code_pages (SitemapResponse status (Parsed ns plain)) urlparse sitemap_url =
          ([Get sitemap_url 0], get_fallback_pages))
   \<and> (\<not> is_error_status status \<and> collect_locs ns = [] \<and> collect_locs plain = [] \<longrightarrow>
        discover_claude_code_pages (SitemapResponse status (Parsed ns plain)) urlparse sitemap_url =
          ([Get sitemap_url 0], []))
   \<and> fst (discover_claude_code_pages sm urlparse sitemap_url) = [Get sitemap_url 0]
   \<and> get_fallback_pages \<noteq> []
   \<and> length get_fallback_pages = 13"
  by (simp add: discover_claude_code_pages_def Let_def get_fallback_pages_nonempty
      get_fallback_pages_length)

theorem discover_claude_code_pages_fallback_witness:
  "is_error_status 503
   \<and> discover_claude_code_pages (SitemapResponse 503 ParseError) unparsable_urls ''s'' =
       ([Get ''s'' 0], get_fallback_pages)
   \<and> \<not> is_error_status 200
   \<and> collect_pages unparsable_urls [''https://code.claude.com/docs/en/setup''] = None
   \<and> discover_claude_code_pages
        (SitemapResponse 200 (Parsed [Some ''https://code.claude.com/docs/en/setup''] []))
        unparsable_urls ''s'' = ([Get ''s'' 0], get_fallback_pages)
   \<and> discover_claude_code_pages (SitemapResponse 200 (Parsed [None, Some []] [None]))
        unparsable_urls ''s'' = ([Get ''s'' 0], [])"
proof -
  have h1: "is_error_status 503" and h2: "\<not> is_error_status 200"
    by (simp_all add: is_error_status_def)
  have h3: "collect_pages unparsable_urls [''https://code.claude.com/docs/en/setup''] = None"
    by code_simp
  have h4: "collect_locs [Some ''https://code.claude.com/docs/en/setup''] =
      [''https://code.claude.com/docs/en/setup'']"
    by simp
  have h5: "collect_locs [None, Some []] = []" "collect_locs [None] = []"
    by simp_all
  from discover_claude_code_pages_fallback [of unparsable_urls "''s''" 503 ParseError] h1
  have a: "discover_claude_code_pages (SitemapResponse 503 ParseError) unparsable_urls ''s'' =
       ([Get ''s'' 0], get_fallback_pages)"
    by blast
  from discover_claude_code_pages_fallback [of unparsable_urls "''s''" 200 ParseError
      "[Some ''https://code.claude.com/docs/en/setup'']" "[]"] h2 h3 h4
  have b: "discover_claude_code_pages
        (SitemapResponse 200 (Parsed [Some ''https://code.claude.com/docs/en/setup''] []))
        unparsable_urls ''s'' = ([Get ''s'' 0], get_fallback_pages)"
    by simp
  from discover_claude_code_pages_fallback [of unparsable_urls "''s''" 200 ParseError
      "[None, Some []]" "[None]"] h2 h5
  have c: "discover_claude_code_pages (SitemapResponse 200 (Parsed [None, Some []] [None]))
        unparsable_urls ''s'' = ([Get ''s'' 0], [])"
    by simp
  show ?thesis
    by (intro conjI h1 a h2 h3 b c)
qed

text \<open>
  C7 as the specification states it fails: a sitemap that is fetched and parsed and
  lists no URL makes the function return the empty list, not the fallback list. In
  \<open>fetch_docs\<close>, where the sitemap was found by an earlier request, the guard
  \<open>if not documentation_pages\<close> then exits with status 1.
\<close>

theorem discover_empty_sitemap_counterexample:
  "discover_claude_code_pages (SitemapResponse 200 (Parsed [] [])) path_after_host
     ''https://code.claude.com/docs/sitemap.xml'' =
     ([Get ''https://code.claude.com/docs/sitemap.xml'' 0], [])
   \<and> get_fallback_pages \<noteq> []
   \<and> fetch_docs empty_sitemap_env NoManifest Map.empty = Exited 1"
proof -
  have a: "discover_claude_code_pages (SitemapResponse 200 (Parsed [] [])) path_after_host
     ''https://code.claude.com/docs/sitemap.xml'' =
     ([Get ''https://code.claude.com/docs/sitemap.xml'' 0], [])"
    by (simp add: discover_claude_code_pages_def is_error_status_def)
  have b: "fetch_docs empty_sitemap_env NoManifest Map.empty = Exited 1"
    by (simp add: fetch_docs_def discovery_def empty_sitemap_env_def a)
  show ?thesis
    by (intro conjI a b get_fallback_pages_nonempty)
qed

section \<open>The reconciler\<close>

lemma validate_skill_md_example:
  "validate_skill_md {''A.md'', ''B.md''} {''A.md'', ''C.md''} =
     \<lparr>orphaned = [''B.md''], unreferenced = [''C.md'']\<rparr>"
proof -
  have "{''A.md'', ''B.md''} - {''A.md'', ''C.md''} - {''README.md'', ''docs_manifest.json''} = {''B.md''}"
    by auto
  moreover
  have "{''A.md'', ''C.md''} - {''A.md'', ''B.md''} - {''README.md'', ''docs_manifest.json''} = {''C.md''}"
    by auto
  ultimately show ?thesis
    by (simp add: validate_skill_md_def Let_def)
qed

lemma validate_skill_md_fields:
  "orphaned (validate_skill_md referenced fetched) =
      sorted_list_of_set (referenced - fetched - {''README.md'', ''docs_manifest.json''})"
  "unreferenced (validate_skill_md referenced fetched) =
      sorted_list_of_set (fetched - referenced - {''README.md'', ''docs_manifest.json''})"
  by (simp_all add: validate_skill_md_def Let_def)

text \<open>
  C8. For finite sets of referenced and fetched names, \<open>validate_skill_md\<close> returns
  as \<open>orphaned\<close> the names of \<open>referenced - fetched - {README.md, docs_manifest.json}\<close>
  and as \<open>unreferenced\<close> those of \<open>fetched - referenced - {README.md,
  docs_manifest.json}\<close>, each as a list in ascending order without repetition; for
  \<open>{A.md, B.md}\<close> and \<open>{A.md, C.md}\<close> these are \<open>[B.md]\<close> and \<open>[C.md]\<close>.
\<close>

theorem validate_skill_md_differences:
  assumes "finite referenced" and "finite fetched"
  shows "set (orphaned (validate_skill_md referenced fetched)) =
           referenced - fetched - {''README.md'', ''docs_manifest.json''}
       \<and> set (unreferenced (validate_skill_md referenced fetched)) =
           fetched - referenced - {''README.md'', ''docs_manifest.json''}
       \<and> sorted (orphaned (validate_skill_md referenced fetched))
       \<and> distinct (orphaned (validate_skill_md referenced fetched))
       \<and> sorted (unreferenced (validate_skill_md referenced fetched))
       \<and> distinct (unreferenced (validate_skill_md referenced fetched))
       \<and> validate_skill_md {''A.md'', ''B.md''} {''A.md'', ''C.md''} =
           \<lparr>orphaned = [''B.md''], unreferenced = [''C.md'']\<rparr>"
proof -
  have fin: "finite (referenced - fetched - {''README.md'', ''docs_manifest.json''})"
      "finite (fetched - referenced - {''README.md'', ''docs_manifest.json''})"
    using assms by simp_all
  show ?thesis
    unfolding validate_skill_md_fields using fin by (intro conjI validate_skill_md_example) simp_all
qed


lemma reconcile_example_sets:
  "{''README.md'', ''setup.md'', ''old.md''} - {''setup.md'', ''hooks.md'', ''changelog.md''}
         - {''README.md'', ''docs_manifest.json''} = {''old.md''}"
  "{''setup.md'', ''hooks.md'', ''changelog.md''} - {''README.md'', ''setup.md'', ''old.md''} 
         - {''README.md'', ''docs_manifest.json''} = {''hooks.md'', ''changelog.md''}"
  by auto

lemma reconcile_example_sorted: "sorted_list_of_set {''hooks.md'', ''changelog.md''} = [''changelog.md'', ''hooks.md'']"
  by (simp add: less_eq_char_def less_char_def)



theorem validate_skill_md_differences_witness:
  "finite {''README.md'', ''setup.md'', ''old.md''}
   \<and> finite {''setup.md'', ''hooks.md'', ''changelog.md''}
   \<and> orphaned (validate_skill_md {''README.md'', ''setup.md'', ''old.md''}
         {''setup.md'', ''hooks.md'', ''changelog.md''}) = [''old.md'']
   \<and> unreferenced (validate_skill_md {''README.md'', ''setup.md'', ''old.md''}
         {''setup.md'', ''hooks.md'', ''changelog.md''}) = [''changelog.md'', ''hooks.md'']
   \<and> set (orphaned (validate_skill_md {''README.md'', ''setup.md'', ''old.md''}
         {''setup.md'', ''hooks.md'', ''changelog.md''})) =
       {''README.md'', ''setup.md'', ''old.md''} - {''setup.md'', ''hooks.md'', ''changelog.md''}
         - {''README.md'', ''docs_manifest.json''}"
proof -
  have f1: "finite {''README.md'', ''setup.md'', ''old.md''}"
    and f2: "finite {''setup.md'', ''hooks.md'', ''changelog.md''}"
    by simp_all
  have a: "orphaned (validate_skill_md {''README.md'', ''setup.md'', ''old.md''}
         {''setup.md'', ''hooks.md'', ''changelog.md''}) = [''old.md'']"
    unfolding validate_skill_md_fields reconcile_example_sets by simp
  have b: "unreferenced (validate_skill_md {''README.md'', ''setup.md'', ''old.md''}
         {''setup.md'', ''hooks.md'', ''changelog.md''}) = [''changelog.md'', ''hooks.md'']"
    unfolding validate_skill_md_fields reconcile_example_sets by (rule reconcile_example_sorted)
  note c = validate_skill_md_differences [OF f1 f2, THEN conjunct1]
  show ?thesis
    by (intro conjI f1 f2 a b c)
qed

section \<open>The changelog\<close>

lemma length_dropWhile_past:
  "\<not> P x \<Longrightarrow> length (x # after) \<le> length (dropWhile P (before @ x # after))"
  by (induction before) auto

lemma strip_lower_bound:
  assumes "s \<noteq> []" and "\<not> is_py_space (hd s)" and "i < length s" and "\<not> is_py_space (s ! i)"
  shows "Suc i \<le> length (py_strip (s @ t))"
proof -
  have "dropWhile is_py_space (s @ t) = s @ t"
    using assms(1,2) by (simp add: dropWhile_eq_self_iff)
  moreover have "s = take i s @ s ! i # drop (Suc i) s"
    using assms(3) by (rule id_take_nth_drop)
  then have "rev (s @ t) = (rev t @ rev (drop (Suc i) s)) @ s ! i # rev (take i s)"
    by (metis append_assoc rev.simps(2) rev_append append_Cons append_Nil)
  then have "length (s ! i # rev (take i s)) \<le> length (dropWhile is_py_space (rev (s @ t)))"
    using length_dropWhile_past [of is_py_space "s ! i" "rev (take i s)" "rev t @ rev (drop (Suc i) s)"] assms(4)
    by simp
  ultimately show ?thesis
    using assms(3) by (simp add: py_strip_def)
qed

lemma changelog_header_facts:
  "changelog_header \<noteq> []"
  "hd changelog_header = CHR ''#''"
  "length changelog_header = 110"
  "changelog_header ! 107 = CHR ''-''"
  by code_simp+

lemma changelog_content_long: "108 \<le> length (py_strip (changelog_header @ t))"
proof -
  have "\<not> is_py_space (hd changelog_header)" "\<not> is_py_space (changelog_header ! 107)"
    unfolding changelog_header_facts by code_simp+
  moreover have "107 < length changelog_header"
    by (simp add: changelog_header_facts)
  ultimately have "Suc 107 \<le> length (py_strip (changelog_header @ t))"
    using changelog_header_facts(1) by (intro strip_lower_bound)
  then show ?thesis by simp
qed

text \<open>
  C10. Whatever body the changelog request returns, the empty one included, the header
  put in front of it makes the stripped content at least 100 characters long (at least
  108): the length check of \<open>fetch_changelog\<close> never fails, an accepted response is
  returned with the header in front, and no call ends with the too-short error.
\<close>

theorem changelog_never_too_short:
  "\<not> length (py_strip (changelog_header @ text)) < 100
   \<and> 100 \<le> length (py_strip (changelog_header @ []))
   \<and> (respond attempt = Response status header text \<and> status \<noteq> 429 \<and> \<not> is_error_status status \<longrightarrow>
        changelog_attempt respond uniform attempt =
          ([], Some (Returns (''changelog.md'', changelog_header @ text))))
   \<and> snd (changelog_attempt respond uniform attempt) \<noteq> Some (Raises (ValueError (ChangelogTooShort n)))
   \<and> snd (fetch_changelog respond uniform) \<noteq> Raises (ValueError (ChangelogTooShort n))"
proof -
  have long: "\<And>t. \<not> length (py_strip (changelog_header @ t)) < 100"
    using changelog_content_long by (simp add: not_less le_trans [of 100 108])
  have a: "100 \<le> length (py_strip (changelog_header @ []))"
    using long [of "[]"] by simp
  have b: "respond attempt = Response status header text \<and> status \<noteq> 429 \<and> \<not> is_error_status status \<longrightarrow>
        changelog_attempt respond uniform attempt =
          ([], Some (Returns (''changelog.md'', changelog_header @ text)))"
    using long by (simp add: changelog_attempt_def Let_def)
  have c: "\<And>a. snd (changelog_attempt respond uniform a) \<noteq> Some (Raises (ValueError (ChangelogTooShort n)))"
    using long
    by (auto simp: changelog_attempt_def on_changelog_exception_def on_rate_limit_def Let_def
        split: http_result.splits retry_after.splits)
  have d: "\<And>as. snd (changelog_loop respond uniform as) \<noteq> Raises (ValueError (ChangelogTooShort n))"
  proof -
    fix as
    show "snd (changelog_loop respond uniform as) \<noteq> Raises (ValueError (ChangelogTooShort n))"
    proof (induction as)
      case Nil
      then show ?case by simp
    next
      case (Cons a as)
      then show ?case
        using c [of a]
        by (cases "changelog_attempt respond uniform a") (auto split: option.splits prod.splits)
    qed
  qed
  show ?thesis
    using long [of "text"] a b c [of attempt] d [of "[0..<MAX_RETRIES]"]
    by (simp add: fetch_changelog_def)
qed

theorem changelog_never_too_short_witness:
  "empty_changelog 0 = Response 200 NoHeader [] \<and> (200::nat) \<noteq> 429 \<and> \<not> is_error_status 200
   \<and> changelog_attempt empty_changelog no_jitter 0 =
       ([], Some (Returns (''changelog.md'', changelog_header)))
   \<and> length (py_strip changelog_header) = 108"
proof -
  have h: "empty_changelog 0 = Response 200 NoHeader [] \<and> (200::nat) \<noteq> 429 \<and> \<not> is_error_status 200"
    by (simp add: empty_changelog_def is_error_status_def)
  from changelog_never_too_short [of "[]" empty_changelog 0 200 NoHeader no_jitter] h
  have a: "changelog_attempt empty_changelog no_jitter 0 =
       ([], Some (Returns (''changelog.md'', changelog_header)))"
    by simp
  have b: "length (py_strip changelog_header) = 108"
    by code_simp
  show ?thesis
    using h a b by simp
qed

section \<open>Change detection\<close>

lemma record_fetched_eq:
  "record_fetched sha files url extra now (filename, content) st =
     (if sha content \<noteq> get_or (old_entry_of files filename) ''hash'' []
      then st\<lparr>disk := (disk st)(filename \<mapsto> content),
              trace := trace st @ [WriteFile filename],
              new_files := AList.update filename
                ([(''original_url'', url), (''hash'', sha content), (''last_updated'', now)] @ extra)
                (new_files st),
              fetched_files := insert filename (fetched_files st),
              successful := successful st + 1\<rparr>
      else st\<lparr>new_files := AList.update filename
                ([(''original_url'', url),
                  (''hash'', get_or (old_entry_of files filename) ''hash'' []),
                  (''last_updated'', get_or (old_entry_of files filename) ''last_updated'' now)] @ extra)
                (new_files st),
              fetched_files := insert filename (fetched_files st),
              successful := successful st + 1\<rparr>)"
  by (simp add: record_fetched_def content_has_changed_def save_markdown_file_def Let_def)

lemma map_of_update_same: "map_of (AList.update k v al) k = Some v"
  by (simp add: update_conv')

lemma record_fetched_no_previous_stamp:
  assumes "map_of files filename = Some old_entry"
    and "map_of old_entry ''hash'' = Some (sha content)"
    and "map_of old_entry ''last_updated'' = None"
  shows "\<exists>e. map_of (new_files (record_fetched sha files url extra now (filename, content) st)) filename = Some e
           \<and> map_of e ''last_updated'' = Some now"
  using assms by (simp add: record_fetched_eq get_or_def old_entry_of_def map_of_update_same)

text \<open>
  The step that follows a successful fetch. Content with the hash the loaded manifest
  stores for its filename is not written: the disk and the trace stay as they are, the
  new manifest gets an entry with the stored hash and the previous \<open>last_updated\<close>.
  Content whose hash differs from the stored one (or that has none stored) is written,
  and its entry holds the new hash and \<open>last_updated = now\<close>. The same content a
  second time, against the manifest of the first time, writes nothing and leaves the
  entry as it was.
\<close>

lemma record_fetched_step:
  "(map_of files filename = Some old_entry \<and> map_of old_entry ''hash'' = Some (sha content) \<longrightarrow>
      disk (record_fetched sha files url extra now (filename, content) st) = disk st
      \<and> trace (record_fetched sha files url extra now (filename, content) st) = trace st
      \<and> filename \<in> fetched_files (record_fetched sha files url extra now (filename, content) st)
      \<and> (\<exists>e. map_of (new_files (record_fetched sha files url extra now (filename, content) st))
                filename = Some e
             \<and> map_of e ''hash'' = map_of old_entry ''hash''
             \<and> (\<forall>stamp. map_of old_entry ''last_updated'' = Some stamp \<longrightarrow>
                   map_of e ''last_updated'' = Some stamp)))
   \<and> (sha content \<noteq> get_or (old_entry_of files filename) ''hash'' [] \<longrightarrow>
      disk (record_fetched sha files url extra now (filename, content) st) =
        (disk st)(filename \<mapsto> content)
      \<and> trace (record_fetched sha files url extra now (filename, content) st) =
        trace st @ [WriteFile filename]
      \<and> filename \<in> fetched_files (record_fetched sha files url extra now (filename, content) st)
      \<and> (\<exists>e. map_of (new_files (record_fetched sha files url extra now (filename, content) st))
                filename = Some e
             \<and> map_of e ''hash'' = Some (sha content)
             \<and> map_of e ''last_updated'' = Some now))
   \<and> disk (record_fetched sha
             (new_files (record_fetched sha files url extra now (filename, content) st))
             url extra later (filename, content)
             (record_fetched sha files url extra now (filename, content) st)) =
       disk (record_fetched sha files url extra now (filename, content) st)
   \<and> trace (record_fetched sha
             (new_files (record_fetched sha files url extra now (filename, content) st))
             url extra later (filename, content)
             (record_fetched sha files url extra now (filename, content) st)) =
       trace (record_fetched sha files url extra now (filename, content) st)
   \<and> map_of (new_files (record_fetched sha
             (new_files (record_fetched sha files url extra now (filename, content) st))
             url extra later (filename, content)
             (record_fetched sha files url extra now (filename, content) st))) filename =
       map_of (new_files (record_fetched sha files url extra now (filename, content) st)) filename"
proof -
  let ?st1 = "record_fetched sha files url extra now (filename, content) st"
  have unchanged: "map_of files filename = Some old_entry \<and> map_of old_entry ''hash'' = Some (sha content) \<longrightarrow>
      disk ?st1 = disk st \<and> trace ?st1 = trace st \<and> filename \<in> fetched_files ?st1
      \<and> (\<exists>e. map_of (new_files ?st1) filename = Some e
             \<and> map_of e ''hash'' = map_of old_entry ''hash''
             \<and> (\<forall>stamp. map_of old_entry ''last_updated'' = Some stamp \<longrightarrow>
                   map_of e ''last_updated'' = Some stamp))"
    by (simp add: record_fetched_eq get_or_def old_entry_of_def map_of_update_same)
  have changed: "sha content \<noteq> get_or (old_entry_of files filename) ''hash'' [] \<longrightarrow>
      disk ?st1 = (disk st)(filename \<mapsto> content)
      \<and> trace ?st1 = trace st @ [WriteFile filename]
      \<and> filename \<in> fetched_files ?st1
      \<and> (\<exists>e. map_of (new_files ?st1) filename = Some e
             \<and> map_of e ''hash'' = Some (sha content)
             \<and> map_of e ''last_updated'' = Some now)"
    by (simp add: record_fetched_eq map_of_update_same)
  have stored: "get_or (old_entry_of (new_files ?st1) filename) ''hash'' [] = sha content"
    by (simp add: record_fetched_eq get_or_def old_entry_of_def map_of_update_same)
  have again: "disk (record_fetched sha (new_files ?st1) url extra later (filename, content) ?st1) = disk ?st1"
      "trace (record_fetched sha (new_files ?st1) url extra later (filename, content) ?st1) = trace ?st1"
    using stored by (simp_all add: record_fetched_eq [of sha "new_files ?st1"])
  have entry: "map_of (new_files (record_fetched sha (new_files ?st1) url extra later (filename, content) ?st1)) filename =
      map_of (new_files ?st1) filename"
    using stored
    by (simp add: record_fetched_eq [of sha "new_files ?st1"] map_of_update_same)
       (simp add: record_fetched_eq get_or_def old_entry_of_def map_of_update_same)
  show ?thesis
    by (intro conjI unchanged changed again entry)
qed

lemma stored_entry_lookup:
  "map_of stored_files ''setup.md'' = Some stored_entry"
  "map_of stored_entry ''hash'' = Some (toy_sha256 setup_page)"
  "map_of stored_entry ''last_updated'' = Some ''2024-12-31T10:00:00''"
  by (simp_all add: stored_files_def stored_entry_def)

lemma changed_page_differs:
  "toy_sha256 changed_page \<noteq> get_or (old_entry_of stored_files ''setup.md'') ''hash'' []"
  by (simp add: get_or_def old_entry_of_def stored_entry_lookup toy_sha256_def changed_page_def)

lemma record_fetched_step_example:
  "map_of stored_files ''setup.md'' = Some stored_entry
   \<and> map_of stored_entry ''hash'' = Some (toy_sha256 setup_page)
   \<and> disk (record_fetched toy_sha256 stored_files ''https://code.claude.com/docs/en/setup'' []
        ''2025-01-02T09:00:00'' (''setup.md'', setup_page) fresh_state) = stored_disk
   \<and> trace (record_fetched toy_sha256 stored_files ''https://code.claude.com/docs/en/setup'' []
        ''2025-01-02T09:00:00'' (''setup.md'', setup_page) fresh_state) = []
   \<and> (\<exists>e. map_of (new_files (record_fetched toy_sha256 stored_files
              ''https://code.claude.com/docs/en/setup'' [] ''2025-01-02T09:00:00''
              (''setup.md'', setup_page) fresh_state)) ''setup.md'' = Some e
          \<and> map_of e ''hash'' = Some (toy_sha256 setup_page)
          \<and> map_of e ''last_updated'' = Some ''2024-12-31T10:00:00'')
   \<and> toy_sha256 changed_page \<noteq> get_or (old_entry_of stored_files ''setup.md'') ''hash'' []
   \<and> disk (record_fetched toy_sha256 stored_files ''https://code.claude.com/docs/en/setup'' []
        ''2025-01-02T09:00:00'' (''setup.md'', changed_page) fresh_state) =
        stored_disk(''setup.md'' \<mapsto> changed_page)
   \<and> trace (record_fetched toy_sha256 stored_files ''https://code.claude.com/docs/en/setup'' []
        ''2025-01-02T09:00:00'' (''setup.md'', changed_page) fresh_state) = [WriteFile ''setup.md'']"
proof -
  note same = record_fetched_step [of stored_files "''setup.md''" stored_entry toy_sha256
      setup_page "''https://code.claude.com/docs/en/setup''" "[]" "''2025-01-02T09:00:00''" fresh_state]
  note diff = record_fetched_step [of stored_files "''setup.md''" stored_entry toy_sha256
      changed_page "''https://code.claude.com/docs/en/setup''" "[]" "''2025-01-02T09:00:00''" fresh_state]
  have st: "disk fresh_state = stored_disk" "trace fresh_state = []"
    by (simp_all add: fresh_state_def)
  have hyp: "map_of stored_files ''setup.md'' = Some stored_entry
      \<and> map_of stored_entry ''hash'' = Some (toy_sha256 setup_page)"
    by (simp add: stored_entry_lookup)
  note same' = same [THEN conjunct1, THEN mp, OF hyp]
  have a: "disk (record_fetched toy_sha256 stored_files ''https://code.claude.com/docs/en/setup'' []
        ''2025-01-02T09:00:00'' (''setup.md'', setup_page) fresh_state) = stored_disk"
    using same' st by simp
  have b: "trace (record_fetched toy_sha256 stored_files ''https://code.claude.com/docs/en/setup'' []
        ''2025-01-02T09:00:00'' (''setup.md'', setup_page) fresh_state) = []"
    using same' st by simp
  have c: "\<exists>e. map_of (new_files (record_fetched toy_sha256 stored_files
              ''https://code.claude.com/docs/en/setup'' [] ''2025-01-02T09:00:00''
              (''setup.md'', setup_page) fresh_state)) ''setup.md'' = Some e
          \<and> map_of e ''hash'' = Some (toy_sha256 setup_page)
          \<and> map_of e ''last_updated'' = Some ''2024-12-31T10:00:00''"
    using same' stored_entry_lookup(2,3) by metis
  note diff' = diff [THEN conjunct2, THEN conjunct1, THEN mp, OF changed_page_differs]
  have d: "disk (record_fetched toy_sha256 stored_files ''https://code.claude.com/docs/en/setup'' []
        ''2025-01-02T09:00:00'' (''setup.md'', changed_page) fresh_state) =
        stored_disk(''setup.md'' \<mapsto> changed_page)"
    using diff' st by simp
  have e: "trace (record_fetched toy_sha256 stored_files ''https://code.claude.com/docs/en/setup'' []
        ''2025-01-02T09:00:00'' (''setup.md'', changed_page) fresh_state) = [WriteFile ''setup.md'']"
    using diff' st by simp
  show ?thesis
    by (intro conjI stored_entry_lookup(1,2) a b c changed_page_differs d e)
qed

section \<open>Cleanup and the new manifest\<close>

lemma unlinked_simps [simp]:
  "unlinked [] = []"
  "unlinked (Get url a # tr) = unlinked tr"
  "unlinked (Sleep d # tr) = unlinked tr"
  "unlinked (WriteFile f # tr) = unlinked tr"
  "unlinked (Unlink f # tr) = f # unlinked tr"
  "unlinked (xs @ ys) = unlinked xs @ unlinked ys"
  by (simp_all add: unlinked_def)

lemma unlinked_fetch_attempt [simp]: "unlinked (fst (fetch_attempt r u fn a)) = []"
  using fetch_attempt_events [of r u fn a "fst (fetch_attempt r u fn a)" "snd (fetch_attempt r u fn a)"]
  by auto

lemma unlinked_fetch_loop [simp]: "unlinked (fst (fetch_loop url r u fn as)) = []"
  by (induction as) (auto simp: fetch_loop_Cons split: option.splits)

lemma changelog_attempt_events:
  "changelog_attempt r u a = (evs, x) \<Longrightarrow> evs = [] \<or> (\<exists>d. evs = [Sleep d])"
  unfolding changelog_attempt_def on_changelog_exception_def Let_def
  by (auto split: http_result.splits if_splits dest: on_rate_limit_events)

lemma unlinked_changelog_attempt [simp]: "unlinked (fst (changelog_attempt r u a)) = []"
  using changelog_attempt_events [of r u a "fst (changelog_attempt r u a)" "snd (changelog_attempt r u a)"]
  by auto

lemma changelog_loop_Cons:
  "changelog_loop r u (a # rest) =
     (Get changelog_url a # fst (changelog_attempt r u a) @
        (case snd (changelog_attempt r u a) of
           Some outcome \<Rightarrow> [] | None \<Rightarrow> fst (changelog_loop r u rest)),
      (case snd (changelog_attempt r u a) of
         Some outcome \<Rightarrow> outcome | None \<Rightarrow> snd (changelog_loop r u rest)))"
  by (cases "changelog_attempt r u a") (auto split: option.splits prod.splits)

declare changelog_loop.simps(2) [simp del]

lemma unlinked_changelog_loop [simp]: "unlinked (fst (changelog_loop r u as)) = []"
  by (induction as) (auto simp: changelog_loop_Cons split: option.splits)

lemma keeps_refl: "keeps st st"
  by (simp add: keeps_def)

lemma keeps_trans: "keeps st st' \<Longrightarrow> keeps st' st'' \<Longrightarrow> keeps st st''"
  by (auto simp: keeps_def)

lemma keeps_record_fetched: "keeps st (record_fetched sha files url extra now fc st)"
  by (cases fc) (auto simp: keeps_def record_fetched_eq dom_update)

lemma keeps_process_page: "keeps st (process_page e files base_url n i page_path st)"
proof -
  obtain tr outcome where f: "fetch_markdown_content page_path (page_respond e i) (page_uniform e i) base_url = (tr, outcome)"
    by (cases "fetch_markdown_content page_path (page_respond e i) (page_uniform e i) base_url")
  then have u: "unlinked tr = []"
    using unlinked_fetch_loop [of "markdown_url base_url page_path" "page_respond e i" "page_uniform e i"
        "url_to_safe_filename page_path" "[0..<MAX_RETRIES]"]
    by (simp add: fetch_markdown_content_def)
  let ?st1 = "st\<lparr>trace := trace st @ tr\<rparr>"
  have k1: "keeps st ?st1"
    using u by (simp add: keeps_def)
  show ?thesis
  proof (cases outcome)
    case (Returns fc)
    let ?st2 = "record_fetched (sha256 e) files (base_url @ page_path) [] (now_page e i) fc ?st1"
    have k2: "keeps ?st1 ?st2"
      by (rule keeps_record_fetched)
    have k3: "keeps ?st2 (?st2\<lparr>trace := trace ?st2 @ [Sleep RATE_LIMIT_DELAY]\<rparr>)"
      by (simp add: keeps_def)
    have "keeps st ?st2"
      using k1 k2 by (rule keeps_trans)
    moreover have "keeps st (?st2\<lparr>trace := trace ?st2 @ [Sleep RATE_LIMIT_DELAY]\<rparr>)"
      using \<open>keeps st ?st2\<close> k3 by (rule keeps_trans)
    ultimately show ?thesis
      using f Returns by (simp add: process_page_def Let_def)
  next
    case (Raises ex)
    have "keeps ?st1 (?st1\<lparr>failed := failed ?st1 + 1, failed_pages := failed_pages ?st1 @ [page_path]\<rparr>)"
      by (simp add: keeps_def)
    with k1 have "keeps st (?st1\<lparr>failed := failed ?st1 + 1, failed_pages := failed_pages ?st1 @ [page_path]\<rparr>)"
      by (rule keeps_trans)
    then show ?thesis
      using f Raises by (simp add: process_page_def Let_def)
  next
    case ReturnsNone
    have "keeps ?st1 (?st1\<lparr>failed := failed ?st1 + 1, failed_pages := failed_pages ?st1 @ [page_path]\<rparr>)"
      by (simp add: keeps_def)
    with k1 have "keeps st (?st1\<lparr>failed := failed ?st1 + 1, failed_pages := failed_pages ?st1 @ [page_path]\<rparr>)"
      by (rule keeps_trans)
    then show ?thesis
      using f ReturnsNone by (simp add: process_page_def Let_def)
  qed
qed

lemma keeps_fetch_pages: "keeps st (fetch_pages e files base_url n pages st)"
proof (induction pages arbitrary: st)
  case Nil
  then show ?case by (simp add: keeps_refl)
next
  case (Cons p pages)
  obtain i page_path where p: "p = (i, page_path)"
    by (cases p)
  have "keeps st (process_page e files base_url n i page_path st)"
    by (rule keeps_process_page)
  moreover have "keeps (process_page e files base_url n i page_path st)
      (fetch_pages e files base_url n pages (process_page e files base_url n i page_path st))"
    by (rule Cons.IH)
  ultimately show ?case
    unfolding p by (simp add: keeps_trans)
qed

lemma keeps_fetch_changelog_step: "keeps st (fetch_changelog_step e files st)"
proof -
  obtain tr outcome where f: "fetch_changelog (changelog_respond e) (changelog_uniform e) = (tr, outcome)"
    by (cases "fetch_changelog (changelog_respond e) (changelog_uniform e)")
  then have u: "unlinked tr = []"
    using unlinked_changelog_loop [of "changelog_respond e" "changelog_uniform e" "[0..<MAX_RETRIES]"]
    by (simp add: fetch_changelog_def)
  let ?st1 = "st\<lparr>trace := trace st @ tr\<rparr>"
  have k1: "keeps st ?st1"
    using u by (simp add: keeps_def)
  show ?thesis
  proof (cases outcome)
    case (Returns fc)
    have "keeps ?st1 (record_fetched (sha256 e) files
        ''https://github.com/anthropics/claude-code/blob/main/CHANGELOG.md''
        [(''source'', ''github'')] (now_changelog e) fc ?st1)"
      by (rule keeps_record_fetched)
    with k1 have "keeps st (record_fetched (sha256 e) files
        ''https://github.com/anthropics/claude-code/blob/main/CHANGELOG.md''
        [(''source'', ''github'')] (now_changelog e) fc ?st1)"
      by (rule keeps_trans)
    then show ?thesis
      using f Returns by (simp add: fetch_changelog_step_def Let_def)
  next
    case (Raises ex)
    have "keeps ?st1 (?st1\<lparr>failed := failed ?st1 + 1\<rparr>)"
      by (simp add: keeps_def)
    with k1 have "keeps st (?st1\<lparr>failed := failed ?st1 + 1\<rparr>)"
      by (rule keeps_trans)
    then show ?thesis
      using f Raises by (simp add: fetch_changelog_step_def Let_def)
  next
    case ReturnsNone
    have "keeps ?st1 (?st1\<lparr>failed := failed ?st1 + 1\<rparr>)"
      by (simp add: keeps_def)
    with k1 have "keeps st (?st1\<lparr>failed := failed ?st1 + 1\<rparr>)"
      by (rule keeps_trans)
    then show ?thesis
      using f ReturnsNone by (simp add: fetch_changelog_step_def Let_def)
  qed
qed

lemma remove_files_effect:
  "dom (disk (remove_files fs st)) = dom (disk st) - (set fs - protected_files)
   \<and> set (unlinked (trace (remove_files fs st))) \<subseteq> set (unlinked (trace st)) \<union> (set fs - protected_files)
   \<and> new_files (remove_files fs st) = new_files st
   \<and> fetched_files (remove_files fs st) = fetched_files st"
proof (induction fs arbitrary: st)
  case Nil
  then show ?case by simp
next
  case (Cons f fs)
  show ?case
  proof (cases "f \<in> protected_files")
    case True
    then show ?thesis
      using Cons.IH [of st] by auto
  next
    case False
    show ?thesis
    proof (cases "disk st f")
      case None
      then show ?thesis
        using False Cons.IH [of st] by auto
    next
      case (Some c)
      let ?st' = "st\<lparr>disk := (disk st)(f := None), trace := trace st @ [Unlink f]\<rparr>"
      have step: "remove_files (f # fs) st = remove_files fs ?st'"
        using False Some by simp
      have d: "dom (disk ?st') = dom (disk st) - {f}"
        by simp
      have t: "set (unlinked (trace ?st')) = insert f (set (unlinked (trace st)))"
        by simp
      have n: "new_files ?st' = new_files st" "fetched_files ?st' = fetched_files st"
        by simp_all
      note ih = Cons.IH [of ?st', unfolded d t n]
      have "dom (disk (remove_files fs ?st')) = dom (disk st) - (set (f # fs) - protected_files)"
        using ih False by auto
      moreover have "set (unlinked (trace (remove_files fs ?st')))
          \<subseteq> set (unlinked (trace st)) \<union> (set (f # fs) - protected_files)"
        using ih False by auto
      ultimately show ?thesis
        unfolding step using ih by simp
    qed
  qed
qed

lemma unlinked_discovery: "discovery e = (base_url, tr, pages) \<Longrightarrow> unlinked tr = []"
  by (auto simp: discovery_def discover_claude_code_pages_def split: option.splits prod.splits if_splits)

lemma cleanup_old_files_effect:
  "dom (disk (cleanup_old_files current files st)) =
     dom (disk st) - (fst ` set files - current - protected_files)
   \<and> set (unlinked (trace (cleanup_old_files current files st)))
       \<subseteq> set (unlinked (trace st)) \<union> (fst ` set files - current - protected_files)
   \<and> new_files (cleanup_old_files current files st) = new_files st
   \<and> fetched_files (cleanup_old_files current files st) = fetched_files st"
proof -
  have "set (filter (\<lambda>filename. filename \<notin> current) (remdups (map fst files))) - protected_files =
      fst ` set files - current - protected_files"
    by auto
  then show ?thesis
    using remove_files_effect [of "filter (\<lambda>filename. filename \<notin> current) (remdups (map fst files))" st]
    by (simp add: cleanup_old_files_def Let_def)
qed

lemma run_after_discovery_effect:
  assumes "unlinked tr = []"
  shows "fst ` set (new_files (run_after_discovery e files disk0 base_url tr pages)) =
           fetched_files (run_after_discovery e files disk0 base_url tr pages)
       \<and> (\<forall>f. f \<in> fst ` set files
               \<and> f \<notin> fetched_files (run_after_discovery e files disk0 base_url tr pages)
               \<and> f \<notin> protected_files
             \<longrightarrow> f \<notin> dom (disk (run_after_discovery e files disk0 base_url tr pages)))
       \<and> (\<forall>f. f \<in> protected_files \<and> f \<in> dom disk0
             \<longrightarrow> f \<in> dom (disk (run_after_discovery e files disk0 base_url tr pages)))
       \<and> (\<forall>f. f \<in> protected_files
             \<longrightarrow> f \<notin> set (unlinked (trace (run_after_discovery e files disk0 base_url tr pages))))"
proof -
  define st0 where "st0 = \<lparr>disk = disk0, trace = tr, new_files = [], fetched_files = {},
                 successful = 0, failed = 0, failed_pages = []\<rparr>"
  define st1 where "st1 = fetch_pages e files base_url (length pages) (enumerate_from 1 pages) st0"
  define st2 where "st2 = fetch_changelog_step e files st1"
  define st3 where "st3 = cleanup_old_files (fetched_files st2) files st2"
  have run: "run_after_discovery e files disk0 base_url tr pages = save_manifest e st3"
    by (simp add: run_after_discovery_def Let_def st0_def st1_def st2_def st3_def)
  have "keeps st0 st1"
    unfolding st1_def by (rule keeps_fetch_pages)
  moreover have "keeps st1 st2"
    unfolding st2_def by (rule keeps_fetch_changelog_step)
  ultimately have "keeps st0 st2"
    by (rule keeps_trans)
  then have k: "fst ` set (new_files st2) = fetched_files st2"
    and d: "dom disk0 \<subseteq> dom (disk st2)"
    and u: "unlinked (trace st2) = []"
    using assms by (simp_all add: keeps_def st0_def)
  note c = cleanup_old_files_effect [of "fetched_files st2" files st2, folded st3_def]
  have k3: "fst ` set (new_files st3) = fetched_files st3" and f3: "fetched_files st3 = fetched_files st2"
    using c k by simp_all
  have d3: "dom (disk st3) = dom (disk st2) - (fst ` set files - fetched_files st2 - protected_files)"
    using c by simp
  have u3: "set (unlinked (trace st3)) \<subseteq> fst ` set files - fetched_files st2 - protected_files"
    using c u by simp
  have s: "dom (disk (save_manifest e st3)) = insert MANIFEST_FILE (dom (disk st3))"
      "new_files (save_manifest e st3) = new_files st3"
      "fetched_files (save_manifest e st3) = fetched_files st3"
      "unlinked (trace (save_manifest e st3)) = unlinked (trace st3)"
    by (simp_all add: save_manifest_def)
  have p: "MANIFEST_FILE \<in> protected_files"
    by (simp add: protected_files_def)
  show ?thesis
    unfolding run s using k3 f3 d3 u3 d p by auto
qed

text \<open>
  C2. After a completed run the keys of the new manifest are exactly the fetched
  filenames. Every filename of the loaded manifest that was not fetched and is not
  protected is gone from the references directory. A protected name
  (\<open>docs_manifest.json\<close>, \<open>README.md\<close>) is never unlinked: one that was on disk stays
  there, and one that was not fetched is absent from the new manifest.
\<close>

theorem cleanup_removes_unfetched:
  assumes "fetch_docs e stored disk0 = Completed st"
  shows "fst ` set (new_files st) = fetched_files st
       \<and> (\<forall>f. f \<in> fst ` set (load_manifest stored) \<and> f \<notin> fetched_files st \<and> f \<notin> protected_files
             \<longrightarrow> f \<notin> dom (disk st))
       \<and> (\<forall>f. f \<in> protected_files \<and> f \<in> dom disk0 \<longrightarrow> f \<in> dom (disk st))
       \<and> (\<forall>f. f \<in> protected_files \<longrightarrow> f \<notin> set (unlinked (trace st)))
       \<and> (\<forall>f. f \<in> protected_files \<and> f \<notin> fetched_files st \<longrightarrow> f \<notin> fst ` set (new_files st))
       \<and> protected_files = {''docs_manifest.json'', ''README.md''}"
proof -
  obtain base_url tr pages where d: "discovery e = (base_url, tr, pages)"
    by (cases "discovery e")
  with assms have st: "st = run_after_discovery e (load_manifest stored) disk0 base_url tr pages"
    by (simp add: fetch_docs_def split: if_splits)
  have "unlinked tr = []"
    using d by (rule unlinked_discovery)
  note r = run_after_discovery_effect [OF this, of e "load_manifest stored" disk0 base_url pages,
      folded st]
  have p: "protected_files = {''docs_manifest.json'', ''README.md''}"
    by (simp add: protected_files_def MANIFEST_FILE_def)
  from r have "\<forall>f. f \<in> protected_files \<and> f \<notin> fetched_files st \<longrightarrow> f \<notin> fst ` set (new_files st)"
    by simp
  with r p show ?thesis
    by blast
qed

lemma demo_discovery:
  "discovery demo_env =
     (''https://code.claude.com'', [Get ''https://code.claude.com/docs/sitemap.xml'' 0],
      [''/docs/en/hooks'', ''/docs/en/setup''])"
  by code_simp

lemma demo_completes:
  "fetch_docs demo_env (ParsedManifest (Some stored_files)) stored_disk = Completed demo_final"
  by (simp add: fetch_docs_def demo_discovery demo_final_def)

lemma demo_final_values:
  "fetched_files demo_final = {''setup.md'', ''changelog.md''}"
  "map fst (new_files demo_final) = [''setup.md'', ''changelog.md'']"
  "disk demo_final ''old.md'' = None"
  "disk demo_final ''README.md'' = Some ''readme''"
  "disk demo_final ''setup.md'' = Some setup_page"
  "unlinked (trace demo_final) = [''old.md'']"
  "failed_pages demo_final = [''/docs/en/hooks'']"
  by code_simp+

theorem cleanup_removes_unfetched_witness:
  "fetch_docs demo_env (ParsedManifest (Some stored_files)) stored_disk = Completed demo_final
   \<and> fst ` set (new_files demo_final) = {''setup.md'', ''changelog.md''}
   \<and> ''old.md'' \<in> fst ` set (load_manifest (ParsedManifest (Some stored_files)))
   \<and> ''old.md'' \<notin> fetched_files demo_final
   \<and> ''old.md'' \<notin> protected_files
   \<and> ''old.md'' \<notin> dom (disk demo_final)
   \<and> ''README.md'' \<in> protected_files
   \<and> ''README.md'' \<in> dom stored_disk
   \<and> ''README.md'' \<notin> fetched_files demo_final
   \<and> ''README.md'' \<in> dom (disk demo_final)
   \<and> ''README.md'' \<notin> set (unlinked (trace demo_final))
   \<and> ''README.md'' \<notin> fst ` set (new_files demo_final)"
proof -
  note t = cleanup_removes_unfetched [OF demo_completes]
  have h1: "''old.md'' \<in> fst ` set (load_manifest (ParsedManifest (Some stored_files)))"
    by (simp add: stored_files_def)
  have h2: "''old.md'' \<notin> fetched_files demo_final" and h3: "''README.md'' \<notin> fetched_files demo_final"
    by (simp_all add: demo_final_values)
  have h4: "''old.md'' \<notin> protected_files" and h5: "''README.md'' \<in> protected_files"
    by (simp_all add: protected_files_def MANIFEST_FILE_def)
  have h6: "''README.md'' \<in> dom stored_disk"
    by (simp add: stored_disk_def)
  have a: "fst ` set (new_files demo_final) = {''setup.md'', ''changelog.md''}"
    using t [THEN conjunct1] unfolding demo_final_values(1) .
  have b: "''old.md'' \<notin> dom (disk demo_final)"
    by (rule t [THEN conjunct2, THEN conjunct1, THEN spec, THEN mp]) (intro conjI h1 h2 h4)
  have c: "''README.md'' \<in> dom (disk demo_final)"
    by (rule t [THEN conjunct2, THEN conjunct2, THEN conjunct1, THEN spec, THEN mp])
      (intro conjI h5 h6)
  have d: "''README.md'' \<notin> set (unlinked (trace demo_final))"
    by (rule t [THEN conjunct2, THEN conjunct2, THEN conjunct2, THEN conjunct1, THEN spec, THEN mp])
      (rule h5)
  have e: "''README.md'' \<notin> fst ` set (new_files demo_final)"
    by (rule t [THEN conjunct2, THEN conjunct2, THEN conjunct2, THEN conjunct2, THEN conjunct1,
          THEN spec, THEN mp]) (intro conjI h5 h3)
  show ?thesis
    by (intro conjI demo_completes a h1 h2 h4 b h5 h6 h3 c d e)
qed

section \<open>Change detection over a run\<close>

lemma untouched_refl: "untouched f st st"
  by (simp add: untouched_def)

lemma untouched_trans: "untouched f st st' \<Longrightarrow> untouched f st' st'' \<Longrightarrow> untouched f st st''"
  by (simp add: untouched_def)

lemma map_of_update_other: "f \<noteq> k \<Longrightarrow> map_of (AList.update k v al) f = map_of al f"
  by (simp add: update_conv')

lemma untouched_record_fetched:
  "f \<noteq> filename \<Longrightarrow> untouched f st (record_fetched sha files url extra now (filename, content) st)"
  by (simp add: untouched_def record_fetched_eq map_of_update_other)

lemma fetch_attempt_returns:
  "snd (fetch_attempt r u fn a) = Some (Returns (f, c)) \<Longrightarrow> f = fn"
  by (auto simp: fetch_attempt_def on_request_exception_def on_rate_limit_def
      split: http_result.splits retry_after.splits sum.splits if_splits)

lemma fetch_loop_returns:
  "snd (fetch_loop url r u fn as) = Returns (f, c) \<Longrightarrow> f = fn"
  by (induction as) (auto simp: fetch_loop_Cons split: option.splits dest: fetch_attempt_returns)

lemma fetch_markdown_content_returns:
  "snd (fetch_markdown_content path r u base_url) = Returns (f, c) \<Longrightarrow> f = url_to_safe_filename path"
  unfolding fetch_markdown_content_def by (rule fetch_loop_returns)

lemma no_write_fetch_attempt: "WriteFile f \<notin> set (fst (fetch_attempt r u fn a))"
  using fetch_attempt_events [of r u fn a "fst (fetch_attempt r u fn a)" "snd (fetch_attempt r u fn a)"]
  by auto

lemma no_write_fetch_loop: "WriteFile f \<notin> set (fst (fetch_loop url r u fn as))"
  by (induction as) (auto simp: fetch_loop_Cons no_write_fetch_attempt split: option.splits)

lemma no_write_changelog_attempt: "WriteFile f \<notin> set (fst (changelog_attempt r u a))"
  using changelog_attempt_events [of r u a "fst (changelog_attempt r u a)" "snd (changelog_attempt r u a)"]
  by auto

lemma no_write_changelog_loop: "WriteFile f \<notin> set (fst (changelog_loop r u as))"
  by (induction as) (auto simp: changelog_loop_Cons no_write_changelog_attempt split: option.splits)

lemma changelog_attempt_returns:
  "snd (changelog_attempt r u a) = Some (Returns (f, c)) \<Longrightarrow> f = ''changelog.md''"
  by (auto simp: changelog_attempt_def on_changelog_exception_def on_rate_limit_def Let_def
      split: http_result.splits retry_after.splits if_splits)

lemma changelog_loop_returns:
  "snd (changelog_loop r u as) = Returns (f, c) \<Longrightarrow> f = ''changelog.md''"
  by (induction as) (auto simp: changelog_loop_Cons split: option.splits dest: changelog_attempt_returns)

lemma process_page_cases:
  "process_page e files base_url n i page_path st =
     (case snd (fetch_markdown_content page_path (page_respond e i) (page_uniform e i) base_url) of
        Returns fc \<Rightarrow>
          (let st2 = record_fetched (sha256 e) files (base_url @ page_path) [] (now_page e i) fc
                 (st\<lparr>trace := trace st @
                    fst (fetch_markdown_content page_path (page_respond e i) (page_uniform e i) base_url)\<rparr>)
           in if i < n then st2\<lparr>trace := trace st2 @ [Sleep RATE_LIMIT_DELAY]\<rparr> else st2)
      | Raises ex \<Rightarrow>
          st\<lparr>trace := trace st @
                fst (fetch_markdown_content page_path (page_respond e i) (page_uniform e i) base_url),
             failed := failed st + 1, failed_pages := failed_pages st @ [page_path]\<rparr>
      | ReturnsNone \<Rightarrow>
          st\<lparr>trace := trace st @
                fst (fetch_markdown_content page_path (page_respond e i) (page_uniform e i) base_url),
             failed := failed st + 1, failed_pages := failed_pages st @ [page_path]\<rparr>)"
  by (cases "fetch_markdown_content page_path (page_respond e i) (page_uniform e i) base_url")
    (simp add: process_page_def Let_def split: fetch_outcome.splits)

lemma no_write_fetch_markdown_content:
  "WriteFile f \<notin> set (fst (fetch_markdown_content path r u base_url))"
  by (simp add: fetch_markdown_content_def no_write_fetch_loop)

lemma untouched_trace_append:
  "WriteFile f \<notin> set tr \<Longrightarrow> untouched f st (st\<lparr>trace := trace st @ tr\<rparr>)"
  by (simp add: untouched_def)

lemma untouched_process_page:
  assumes "url_to_safe_filename page_path \<noteq> f"
  shows "untouched f st (process_page e files base_url n i page_path st)"
proof -
  let ?res = "fetch_markdown_content page_path (page_respond e i) (page_uniform e i) base_url"
  let ?st1 = "st\<lparr>trace := trace st @ fst ?res\<rparr>"
  have u1: "untouched f st ?st1"
    by (rule untouched_trace_append) (rule no_write_fetch_markdown_content)
  show ?thesis
  proof (cases "snd ?res")
    case (Returns fc)
    obtain fn c where fc: "fc = (fn, c)"
      by (cases fc)
    with Returns have "fn = url_to_safe_filename page_path"
      by (intro fetch_markdown_content_returns [of page_path "page_respond e i" "page_uniform e i" base_url fn c]) simp
    with assms have ne: "f \<noteq> fn"
      by simp
    let ?st2 = "record_fetched (sha256 e) files (base_url @ page_path) [] (now_page e i) (fn, c) ?st1"
    have u2: "untouched f ?st1 ?st2"
      using ne by (rule untouched_record_fetched)
    have u3: "untouched f ?st2 (?st2\<lparr>trace := trace ?st2 @ [Sleep RATE_LIMIT_DELAY]\<rparr>)"
      by (rule untouched_trace_append) simp
    have "untouched f st ?st2"
      using u1 u2 by (rule untouched_trans)
    moreover from this u3 have "untouched f st (?st2\<lparr>trace := trace ?st2 @ [Sleep RATE_LIMIT_DELAY]\<rparr>)"
      by (rule untouched_trans)
    ultimately show ?thesis
      using Returns fc by (simp add: process_page_cases Let_def)
  next
    case (Raises ex)
    have "untouched f ?st1 (?st1\<lparr>failed := failed ?st1 + 1, failed_pages := failed_pages ?st1 @ [page_path]\<rparr>)"
      by (simp add: untouched_def)
    with u1 have "untouched f st (?st1\<lparr>failed := failed ?st1 + 1, failed_pages := failed_pages ?st1 @ [page_path]\<rparr>)"
      by (rule untouched_trans)
    then show ?thesis
      using Raises by (simp add: process_page_cases)
  next
    case ReturnsNone
    have "untouched f ?st1 (?st1\<lparr>failed := failed ?st1 + 1, failed_pages := failed_pages ?st1 @ [page_path]\<rparr>)"
      by (simp add: untouched_def)
    with u1 have "untouched f st (?st1\<lparr>failed := failed ?st1 + 1, failed_pages := failed_pages ?st1 @ [page_path]\<rparr>)"
      by (rule untouched_trans)
    then show ?thesis
      using ReturnsNone by (simp add: process_page_cases)
  qed
qed

lemma untouched_fetch_pages:
  "list_all (\<lambda>p. url_to_safe_filename (snd p) \<noteq> f) ps \<Longrightarrow>
     untouched f st (fetch_pages e files base_url n ps st)"
proof (induction ps arbitrary: st)
  case Nil
  then show ?case by (simp add: untouched_refl)
next
  case (Cons p ps)
  obtain i page_path where p: "p = (i, page_path)"
    by (cases p)
  with Cons.prems have "untouched f st (process_page e files base_url n i page_path st)"
    by (intro untouched_process_page) simp
  moreover have "untouched f (process_page e files base_url n i page_path st)
      (fetch_pages e files base_url n ps (process_page e files base_url n i page_path st))"
    using Cons.prems by (intro Cons.IH) simp
  ultimately show ?case
    unfolding p by (simp add: untouched_trans)
qed

lemma fetch_pages_append:
  "fetch_pages e files base_url n (xs @ ys) st =
     fetch_pages e files base_url n ys (fetch_pages e files base_url n xs st)"
  by (induction xs arbitrary: st) auto

lemma untouched_fetch_changelog_step:
  assumes "f \<noteq> ''changelog.md''"
  shows "untouched f st (fetch_changelog_step e files st)"
proof -
  let ?res = "fetch_changelog (changelog_respond e) (changelog_uniform e)"
  let ?st1 = "st\<lparr>trace := trace st @ fst ?res\<rparr>"
  have u1: "untouched f st ?st1"
    by (rule untouched_trace_append) (simp add: fetch_changelog_def no_write_changelog_loop)
  show ?thesis
  proof (cases "snd ?res")
    case (Returns fc)
    obtain fn c where fc: "fc = (fn, c)"
      by (cases fc)
    with Returns have "fn = ''changelog.md''"
      by (intro changelog_loop_returns [of "changelog_respond e" "changelog_uniform e" "[0..<MAX_RETRIES]" fn c])
        (simp add: fetch_changelog_def)
    with assms have "f \<noteq> fn"
      by simp
    then have "untouched f ?st1 (record_fetched (sha256 e) files
        ''https://github.com/anthropics/claude-code/blob/main/CHANGELOG.md''
        [(''source'', ''github'')] (now_changelog e) (fn, c) ?st1)"
      by (rule untouched_record_fetched)
    with u1 have "untouched f st (record_fetched (sha256 e) files
        ''https://github.com/anthropics/claude-code/blob/main/CHANGELOG.md''
        [(''source'', ''github'')] (now_changelog e) (fn, c) ?st1)"
      by (rule untouched_trans)
    then show ?thesis
      using Returns fc
      by (cases ?res) (simp add: fetch_changelog_step_def Let_def)
  next
    case (Raises ex)
    have "untouched f ?st1 (?st1\<lparr>failed := failed ?st1 + 1\<rparr>)"
      by (simp add: untouched_def)
    with u1 have "untouched f st (?st1\<lparr>failed := failed ?st1 + 1\<rparr>)"
      by (rule untouched_trans)
    then show ?thesis
      using Raises by (cases ?res) (simp add: fetch_changelog_step_def Let_def)
  next
    case ReturnsNone
    have "untouched f ?st1 (?st1\<lparr>failed := failed ?st1 + 1\<rparr>)"
      by (simp add: untouched_def)
    with u1 have "untouched f st (?st1\<lparr>failed := failed ?st1 + 1\<rparr>)"
      by (rule untouched_trans)
    then show ?thesis
      using ReturnsNone by (cases ?res) (simp add: fetch_changelog_step_def Let_def)
  qed
qed

lemma untouched_remove_files: "f \<notin> set fs \<Longrightarrow> untouched f st (remove_files fs st)"
proof (induction fs arbitrary: st)
  case Nil
  then show ?case by (simp add: untouched_refl)
next
  case (Cons g fs)
  then have ne: "f \<noteq> g" and rest: "f \<notin> set fs"
    by auto
  let ?st' = "st\<lparr>disk := (disk st)(g := None), trace := trace st @ [Unlink g]\<rparr>"
  have u: "untouched f st ?st'"
    using ne by (simp add: untouched_def)
  have "untouched f ?st' (remove_files fs ?st')"
    using rest by (rule Cons.IH)
  with u have "untouched f st (remove_files fs ?st')"
    by (rule untouched_trans)
  moreover have "untouched f st (remove_files fs st)"
    using rest by (rule Cons.IH)
  ultimately show ?case
    by simp
qed

lemma untouched_cleanup_old_files:
  "f \<in> current \<Longrightarrow> untouched f st (cleanup_old_files current files st)"
  unfolding cleanup_old_files_def Let_def by (rule untouched_remove_files) simp

lemma untouched_save_manifest: "f \<noteq> MANIFEST_FILE \<Longrightarrow> untouched f st (save_manifest e st)"
  by (simp add: untouched_def save_manifest_def)

lemma enumerate_from_Cons: "enumerate_from n (x # xs) = (n, x) # enumerate_from (Suc n) xs"
proof -
  have "[n..<n + length (x # xs)] = n # [Suc n..<Suc n + length xs]"
    by (simp add: upt_conv_Cons del: upt_Suc)
  then show ?thesis
    by (simp add: enumerate_from_def del: upt_Suc)
qed

lemma enumerate_from_Nil: "enumerate_from n [] = []"
  by (simp add: enumerate_from_def)

lemma enumerate_from_append:
  "enumerate_from n (xs @ ys) = enumerate_from n xs @ enumerate_from (n + length xs) ys"
  by (induction xs arbitrary: n) (simp_all add: enumerate_from_Cons enumerate_from_Nil)

lemma list_all_enumerate_from:
  "list_all (\<lambda>p. P (snd p)) (enumerate_from n xs) = list_all P xs"
  by (induction xs arbitrary: n) (simp_all add: enumerate_from_Cons enumerate_from_Nil)

lemma enumerate_from_split:
  assumes "i < length pages"
  shows "enumerate_from 1 pages =
     enumerate_from 1 (take i pages) @ (Suc i, pages ! i) # enumerate_from (Suc (Suc i)) (drop (Suc i) pages)"
proof -
  have "pages = take i pages @ pages ! i # drop (Suc i) pages"
    using assms by (rule id_take_nth_drop)
  then have "enumerate_from 1 pages =
      enumerate_from 1 (take i pages @ pages ! i # drop (Suc i) pages)"
    by simp
  also have "\<dots> = enumerate_from 1 (take i pages) @
      enumerate_from (1 + length (take i pages)) (pages ! i # drop (Suc i) pages)"
    by (rule enumerate_from_append)
  also have "1 + length (take i pages) = Suc i"
    using assms by simp
  finally show ?thesis
    by (simp add: enumerate_from_Cons)
qed

lemma others_before:
  assumes "i < length pages"
    and "\<forall>j<length pages. j \<noteq> i \<longrightarrow> url_to_safe_filename (pages ! j) \<noteq> f"
  shows "list_all (\<lambda>p. url_to_safe_filename p \<noteq> f) (take i pages)"
  unfolding list_all_length using assms by simp

lemma others_after:
  assumes "i < length pages"
    and "\<forall>j<length pages. j \<noteq> i \<longrightarrow> url_to_safe_filename (pages ! j) \<noteq> f"
  shows "list_all (\<lambda>p. url_to_safe_filename p \<noteq> f) (drop (Suc i) pages)"
  unfolding list_all_length using assms by simp

lemma no_write_discovery: "discovery e = (base_url, tr, pages) \<Longrightarrow> WriteFile f \<notin> set tr"
  by (auto simp: discovery_def discover_claude_code_pages_def split: option.splits prod.splits if_splits)

lemma md_name_not_manifest: "url_to_safe_filename p \<noteq> MANIFEST_FILE"
proof
  assume "url_to_safe_filename p = MANIFEST_FILE"
  moreover have "suffix ''.md'' (url_to_safe_filename p)"
    by (simp add: url_to_safe_filename_def Let_def suffix_def)
  ultimately have "suffix ''.md'' MANIFEST_FILE"
    by simp
  then show False
    by (simp add: MANIFEST_FILE_def suffix_to_prefix)
qed

lemma run_after_discovery_split:
  assumes "i < length pages"
  shows "run_after_discovery e files disk0 base_url tr0 pages =
     save_manifest e
       (cleanup_old_files
          (fetched_files (fetch_changelog_step e files
             (fetch_pages e files base_url (length pages)
                (enumerate_from (Suc (Suc i)) (drop (Suc i) pages))
                (process_page e files base_url (length pages) (Suc i) (pages ! i)
                   (fetch_pages e files base_url (length pages) (enumerate_from 1 (take i pages))
                      \<lparr>disk = disk0, trace = tr0, new_files = [], fetched_files = {},
                        successful = 0, failed = 0, failed_pages = []\<rparr>)))))
          files
          (fetch_changelog_step e files
             (fetch_pages e files base_url (length pages)
                (enumerate_from (Suc (Suc i)) (drop (Suc i) pages))
                (process_page e files base_url (length pages) (Suc i) (pages ! i)
                   (fetch_pages e files base_url (length pages) (enumerate_from 1 (take i pages))
                      \<lparr>disk = disk0, trace = tr0, new_files = [], fetched_files = {},
                        successful = 0, failed = 0, failed_pages = []\<rparr>)))))"
  unfolding run_after_discovery_def Let_def enumerate_from_split [OF assms] fetch_pages_append
  by simp

lemma run_keeps_page_step:
  assumes i: "i < length pages"
    and unique: "\<forall>j<length pages. j \<noteq> i \<longrightarrow> url_to_safe_filename (pages ! j) \<noteq> f"
    and f: "f = url_to_safe_filename (pages ! i)"
    and nc: "f \<noteq> ''changelog.md''"
    and tr0: "WriteFile f \<notin> set tr0"
  shows "\<exists>sa sb.
       untouched f \<lparr>disk = disk0, trace = tr0, new_files = [], fetched_files = {},
                    successful = 0, failed = 0, failed_pages = []\<rparr> sa
     \<and> sb = process_page e files base_url (length pages) (Suc i) (pages ! i) sa
     \<and> (f \<in> fetched_files sb \<longrightarrow>
          untouched f sb (run_after_discovery e files disk0 base_url tr0 pages))"
proof -
  let ?n = "length pages"
  let ?st0 = "\<lparr>disk = disk0, trace = tr0, new_files = [], fetched_files = {},
                successful = 0, failed = 0, failed_pages = []\<rparr>"
  let ?sa = "fetch_pages e files base_url ?n (enumerate_from 1 (take i pages)) ?st0"
  let ?sb = "process_page e files base_url ?n (Suc i) (pages ! i) ?sa"
  let ?s1 = "fetch_pages e files base_url ?n (enumerate_from (Suc (Suc i)) (drop (Suc i) pages)) ?sb"
  let ?s2 = "fetch_changelog_step e files ?s1"
  let ?s3 = "cleanup_old_files (fetched_files ?s2) files ?s2"
  have run: "run_after_discovery e files disk0 base_url tr0 pages = save_manifest e ?s3"
    using i by (rule run_after_discovery_split)
  have ua: "untouched f ?st0 ?sa"
    using others_before [OF i unique]
    by (intro untouched_fetch_pages)
      (simp add: list_all_enumerate_from [of "\<lambda>p. url_to_safe_filename p \<noteq> f"])
  have u1: "untouched f ?sb ?s1"
    using others_after [OF i unique]
    by (intro untouched_fetch_pages)
      (simp add: list_all_enumerate_from [of "\<lambda>p. url_to_safe_filename p \<noteq> f"])
  have u2: "untouched f ?s1 ?s2"
    using nc by (rule untouched_fetch_changelog_step)
  have u12: "untouched f ?sb ?s2"
    using u1 u2 by (rule untouched_trans)
  have rest: "untouched f ?sb (save_manifest e ?s3)" if "f \<in> fetched_files ?sb"
  proof -
    from that u12 have "f \<in> fetched_files ?s2"
      by (simp add: untouched_def)
    then have u3: "untouched f ?s2 ?s3"
      by (rule untouched_cleanup_old_files)
    have "f \<noteq> MANIFEST_FILE"
      unfolding f by (rule md_name_not_manifest)
    then have u4: "untouched f ?s3 (save_manifest e ?s3)"
      by (rule untouched_save_manifest)
    from u12 u3 have "untouched f ?sb ?s3"
      by (rule untouched_trans)
    from this u4 show ?thesis
      by (rule untouched_trans)
  qed
  show ?thesis
    unfolding run using ua rest by blast
qed

lemma process_page_returned:
  assumes "snd (fetch_markdown_content page_path (page_respond e i) (page_uniform e i) base_url) =
      Returns (f, content)"
    and "WriteFile f \<notin> set (trace sa)"
  shows "f \<in> fetched_files (process_page e files base_url n i page_path sa)
     \<and> (sha256 e content = get_or (old_entry_of files f) ''hash'' [] \<longrightarrow>
          WriteFile f \<notin> set (trace (process_page e files base_url n i page_path sa))
          \<and> disk (process_page e files base_url n i page_path sa) f = disk sa f
          \<and> map_of (new_files (process_page e files base_url n i page_path sa)) f =
              Some [(''original_url'', base_url @ page_path),
                    (''hash'', get_or (old_entry_of files f) ''hash'' []),
                    (''last_updated'', get_or (old_entry_of files f) ''last_updated'' (now_page e i))])
     \<and> (sha256 e content \<noteq> get_or (old_entry_of files f) ''hash'' [] \<longrightarrow>
          WriteFile f \<in> set (trace (process_page e files base_url n i page_path sa))
          \<and> disk (process_page e files base_url n i page_path sa) f = Some content
          \<and> map_of (new_files (process_page e files base_url n i page_path sa)) f =
              Some [(''original_url'', base_url @ page_path),
                    (''hash'', sha256 e content),
                    (''last_updated'', now_page e i)])"
  using assms no_write_fetch_markdown_content [of f page_path "page_respond e i" "page_uniform e i" base_url]
  by (simp add: process_page_cases Let_def record_fetched_eq map_of_update_same)

text \<open>
  C1, as the code has it. Take a completed run and a page of it whose fetch returns, and
  whose filename no other page of the run derives and is not \<open>changelog.md\<close>. If the
  hash of the content is the one the loaded manifest stores for the filename, the run
  never writes the file, leaves it on disk as it was, and the new manifest holds an
  entry for the filename with the stored hash and the previous \<open>last_updated\<close> (the
  current time if the stored entry has none). If the hash differs from the stored one,
  or none is stored, the file is written with the content and the entry holds the new
  hash and the current time. The filename counts as fetched either way.
\<close>

theorem fetch_docs_unchanged_page:
  assumes "fetch_docs e stored disk0 = Completed st"
    and "discovery e = (base_url, tr0, pages)"
    and "i < length pages"
    and "snd (fetch_markdown_content (pages ! i) (page_respond e (Suc i)) (page_uniform e (Suc i))
           base_url) = Returns (filename, content)"
    and "\<forall>j<length pages. j \<noteq> i \<longrightarrow> url_to_safe_filename (pages ! j) \<noteq> filename"
    and "filename \<noteq> ''changelog.md''"
  shows "filename = url_to_safe_filename (pages ! i)
       \<and> filename \<in> fetched_files st
       \<and> (\<forall>old_entry.
             map_of (load_manifest stored) filename = Some old_entry
             \<and> map_of old_entry ''hash'' = Some (sha256 e content) \<longrightarrow>
               WriteFile filename \<notin> set (trace st)
               \<and> disk st filename = disk0 filename
               \<and> map_of (new_files st) filename =
                   Some [(''original_url'', base_url @ pages ! i),
                         (''hash'', sha256 e content),
                         (''last_updated'',
                          case map_of old_entry ''last_updated'' of
                            Some stamp \<Rightarrow> stamp | None \<Rightarrow> now_page e (Suc i))])
       \<and> (sha256 e content \<noteq> get_or (old_entry_of (load_manifest stored) filename) ''hash'' [] \<longrightarrow>
             WriteFile filename \<in> set (trace st)
             \<and> disk st filename = Some content
             \<and> map_of (new_files st) filename =
                 Some [(''original_url'', base_url @ pages ! i),
                       (''hash'', sha256 e content),
                       (''last_updated'', now_page e (Suc i))])"
proof -
  let ?files = "load_manifest stored"
  let ?st0 = "\<lparr>disk = disk0, trace = tr0, new_files = [], fetched_files = {},
                successful = 0, failed = 0, failed_pages = []\<rparr>"
  have st: "st = run_after_discovery e ?files disk0 base_url tr0 pages"
    using assms(1,2) by (simp add: fetch_docs_def split: if_splits)
  have fn: "filename = url_to_safe_filename (pages ! i)"
    using assms(4) by (rule fetch_markdown_content_returns)
  have tr0: "WriteFile filename \<notin> set tr0"
    using assms(2) by (rule no_write_discovery)
  obtain sa sb where ua: "untouched filename ?st0 sa"
    and sb: "sb = process_page e ?files base_url (length pages) (Suc i) (pages ! i) sa"
    and rest: "filename \<in> fetched_files sb \<longrightarrow> untouched filename sb st"
    using run_keeps_page_step [OF assms(3,5) fn assms(6) tr0, of disk0 e ?files base_url]
    unfolding st by blast
  have sa: "WriteFile filename \<notin> set (trace sa)" "disk sa filename = disk0 filename"
    using ua tr0 by (simp_all add: untouched_def)
  note page = process_page_returned [OF assms(4) sa(1), of ?files "length pages", folded sb]
  from page have fetched: "filename \<in> fetched_files sb"
    by (rule conjunct1)
  with rest have u: "untouched filename sb st"
    by simp
  then have eqs: "disk st filename = disk sb filename"
      "map_of (new_files st) filename = map_of (new_files sb) filename"
      "(filename \<in> fetched_files st) = (filename \<in> fetched_files sb)"
      "(WriteFile filename \<in> set (trace st)) = (WriteFile filename \<in> set (trace sb))"
    by (simp_all add: untouched_def)
  have a: "filename \<in> fetched_files st"
    using fetched eqs(3) by simp
  have b: "\<forall>old_entry.
             map_of ?files filename = Some old_entry
             \<and> map_of old_entry ''hash'' = Some (sha256 e content) \<longrightarrow>
               WriteFile filename \<notin> set (trace st)
               \<and> disk st filename = disk0 filename
               \<and> map_of (new_files st) filename =
                   Some [(''original_url'', base_url @ pages ! i),
                         (''hash'', sha256 e content),
                         (''last_updated'',
                          case map_of old_entry ''last_updated'' of
                            Some stamp \<Rightarrow> stamp | None \<Rightarrow> now_page e (Suc i))]"
  proof (intro allI impI)
    fix old_entry
    assume old: "map_of ?files filename = Some old_entry
        \<and> map_of old_entry ''hash'' = Some (sha256 e content)"
    then have same: "sha256 e content = get_or (old_entry_of ?files filename) ''hash'' []"
      and stamp: "get_or (old_entry_of ?files filename) ''last_updated'' (now_page e (Suc i)) =
          (case map_of old_entry ''last_updated'' of
             Some stamp \<Rightarrow> stamp | None \<Rightarrow> now_page e (Suc i))"
      by (simp_all add: get_or_def old_entry_of_def)
    from page same have "WriteFile filename \<notin> set (trace sb)
        \<and> disk sb filename = disk sa filename
        \<and> map_of (new_files sb) filename =
            Some [(''original_url'', base_url @ pages ! i),
                  (''hash'', get_or (old_entry_of ?files filename) ''hash'' []),
                  (''last_updated'', get_or (old_entry_of ?files filename) ''last_updated''
                      (now_page e (Suc i)))]"
      by blast
    then show "WriteFile filename \<notin> set (trace st)
               \<and> disk st filename = disk0 filename
               \<and> map_of (new_files st) filename =
                   Some [(''original_url'', base_url @ pages ! i),
                         (''hash'', sha256 e content),
                         (''last_updated'',
                          case map_of old_entry ''last_updated'' of
                            Some stamp \<Rightarrow> stamp | None \<Rightarrow> now_page e (Suc i))]"
      unfolding eqs sa(2) stamp same [symmetric] by simp
  qed
  have c: "sha256 e content \<noteq> get_or (old_entry_of ?files filename) ''hash'' [] \<longrightarrow>
             WriteFile filename \<in> set (trace st)
             \<and> disk st filename = Some content
             \<and> map_of (new_files st) filename =
                 Some [(''original_url'', base_url @ pages ! i),
                       (''hash'', sha256 e content),
                       (''last_updated'', now_page e (Suc i))]"
    unfolding eqs using page by blast
  show ?thesis
    by (intro conjI fn a b c)
qed

lemma demo_setup_fetch:
  "snd (fetch_markdown_content ([''/docs/en/hooks'', ''/docs/en/setup''] ! 1)
     (page_respond demo_env (Suc 1)) (page_uniform demo_env (Suc 1)) ''https://code.claude.com'') =
   Returns (''setup.md'', setup_page)"
  by code_simp

lemma demo_other_names:
  "\<forall>j<length [''/docs/en/hooks'', ''/docs/en/setup'']. j \<noteq> 1 \<longrightarrow>
     url_to_safe_filename ([''/docs/en/hooks'', ''/docs/en/setup''] ! j) \<noteq> ''setup.md''"
proof (intro allI impI)
  fix j :: nat
  assume "j < length [''/docs/en/hooks'', ''/docs/en/setup'']" and "j \<noteq> 1"
  then have "j = 0"
    by simp
  moreover have "url_to_safe_filename ''/docs/en/hooks'' = ''hooks.md''"
    by code_simp
  ultimately show "url_to_safe_filename ([''/docs/en/hooks'', ''/docs/en/setup''] ! j) \<noteq> ''setup.md''"
    by simp
qed

lemma demo_stored_setup:
  "map_of (load_manifest (ParsedManifest (Some stored_files))) ''setup.md'' = Some stored_entry
   \<and> map_of stored_entry ''hash'' = Some (sha256 demo_env setup_page)"
  by (simp add: stored_entry_lookup demo_env_def)

theorem fetch_docs_unchanged_page_witness:
  "fetch_docs demo_env (ParsedManifest (Some stored_files)) stored_disk = Completed demo_final
   \<and> snd (fetch_markdown_content ''/docs/en/setup'' (page_respond demo_env 2)
        (page_uniform demo_env 2) ''https://code.claude.com'') = Returns (''setup.md'', setup_page)
   \<and> map_of stored_files ''setup.md'' = Some stored_entry
   \<and> map_of stored_entry ''hash'' = Some (toy_sha256 setup_page)
   \<and> ''setup.md'' \<in> fetched_files demo_final
   \<and> WriteFile ''setup.md'' \<notin> set (trace demo_final)
   \<and> disk demo_final ''setup.md'' = Some setup_page
   \<and> map_of (new_files demo_final) ''setup.md'' =
       Some [(''original_url'', ''https://code.claude.com/docs/en/setup''),
             (''hash'', toy_sha256 setup_page),
             (''last_updated'', ''2024-12-31T10:00:00'')]"
proof -
  have i: "1 < length [''/docs/en/hooks'', ''/docs/en/setup'']"
    by simp
  have nc: "''setup.md'' \<noteq> ''changelog.md''"
    by simp
  note t = fetch_docs_unchanged_page [OF demo_completes demo_discovery i demo_setup_fetch
      demo_other_names nc]
  note unchanged = t [THEN conjunct2, THEN conjunct2, THEN conjunct1, THEN spec, THEN mp,
      OF demo_stored_setup]
  have f: "snd (fetch_markdown_content ''/docs/en/setup'' (page_respond demo_env 2)
        (page_uniform demo_env 2) ''https://code.claude.com'') = Returns (''setup.md'', setup_page)"
    using demo_setup_fetch by (simp add: numeral_2_eq_2)
  have a: "''setup.md'' \<in> fetched_files demo_final"
    by (rule t [THEN conjunct2, THEN conjunct1])
  have b: "WriteFile ''setup.md'' \<notin> set (trace demo_final)"
    by (rule unchanged [THEN conjunct1])
  have c: "disk demo_final ''setup.md'' = Some setup_page"
    using unchanged [THEN conjunct2, THEN conjunct1] by (simp add: stored_disk_def)
  have d: "map_of (new_files demo_final) ''setup.md'' =
       Some [(''original_url'', ''https://code.claude.com/docs/en/setup''),
             (''hash'', toy_sha256 setup_page),
             (''last_updated'', ''2024-12-31T10:00:00'')]"
    using unchanged [THEN conjunct2, THEN conjunct2]
    by (simp add: stored_entry_lookup demo_env_def)
  show ?thesis
    by (intro conjI demo_completes f stored_entry_lookup(1,2) a b c d)
qed

lemma collision_discovery:
  "discovery collision_env =
     (''https://code.claude.com'', [Get ''https://code.claude.com/docs/sitemap.xml'' 0],
      [''/docs/en/changelog''])"
  by code_simp

lemma collision_completes:
  "fetch_docs collision_env (ParsedManifest (Some collision_files)) collision_disk =
     Completed collision_final"
  by (simp add: fetch_docs_def collision_discovery collision_final_def)

lemma collision_page_fetch:
  "fetch_markdown_content ''/docs/en/changelog'' (page_respond collision_env 1)
     (page_uniform collision_env 1) ''https://code.claude.com'' =
   ([Get ''https://code.claude.com/docs/en/changelog.md'' 0], Returns (''changelog.md'', setup_page))"
  by code_simp

lemma collision_stored:
  "map_of collision_files ''changelog.md'' =
     Some [(''original_url'', ''https://code.claude.com/docs/en/changelog''),
           (''hash'', toy_sha256 setup_page),
           (''last_updated'', ''2024-12-31T10:00:00'')]"
  by (simp add: collision_files_def)

lemma collision_final_values:
  "trace collision_final =
     [Get ''https://code.claude.com/docs/sitemap.xml'' 0,
      Get ''https://code.claude.com/docs/en/changelog.md'' 0,
      Get changelog_url 0,
      WriteFile ''changelog.md'',
      WriteFile ''docs_manifest.json'']"
  "disk collision_final ''changelog.md'' = Some (changelog_header @ ''- first release'')"
  "map_of (new_files collision_final) ''changelog.md'' =
     Some [(''original_url'', ''https://github.com/anthropics/claude-code/blob/main/CHANGELOG.md''),
           (''hash'', toy_sha256 (changelog_header @ ''- first release'')),
           (''last_updated'', ''2025-01-02T09:00:01''),
           (''source'', ''github'')]"
  by code_simp+

text \<open>
  C1 as the specification states it fails. The page \<open>/docs/en/changelog\<close> is fetched
  with the content whose hash the loaded manifest stores under \<open>changelog.md\<close>, and is
  not written. The changelog of the repository derives the same filename and is
  compared with the same stored hash: the file is written after all, and the entry of
  the new manifest holds another hash and another \<open>last_updated\<close>.
\<close>

theorem unchanged_page_rewritten_counterexample:
  "fetch_docs collision_env (ParsedManifest (Some collision_files)) collision_disk =
     Completed collision_final
   \<and> fetch_markdown_content ''/docs/en/changelog'' (page_respond collision_env 1)
       (page_uniform collision_env 1) ''https://code.claude.com'' =
     ([Get ''https://code.claude.com/docs/en/changelog.md'' 0], Returns (''changelog.md'', setup_page))
   \<and> map_of collision_files ''changelog.md'' =
       Some [(''original_url'', ''https://code.claude.com/docs/en/changelog''),
             (''hash'', sha256 collision_env setup_page),
             (''last_updated'', ''2024-12-31T10:00:00'')]
   \<and> collision_disk ''changelog.md'' = Some setup_page
   \<and> WriteFile ''changelog.md'' \<in> set (trace collision_final)
   \<and> disk collision_final ''changelog.md'' \<noteq> Some setup_page
   \<and> map_of (new_files collision_final) ''changelog.md'' =
       Some [(''original_url'', ''https://github.com/anthropics/claude-code/blob/main/CHANGELOG.md''),
             (''hash'', toy_sha256 (changelog_header @ ''- first release'')),
             (''last_updated'', ''2025-01-02T09:00:01''),
             (''source'', ''github'')]
   \<and> toy_sha256 (changelog_header @ ''- first release'') \<noteq> sha256 collision_env setup_page"
proof -
  have sha: "sha256 collision_env = toy_sha256"
    by (simp add: collision_env_def)
  have a: "collision_disk ''changelog.md'' = Some setup_page"
    by (simp add: collision_disk_def)
  have b: "WriteFile ''changelog.md'' \<in> set (trace collision_final)"
    by (simp add: collision_final_values(1))
  have ne: "changelog_header @ ''- first release'' \<noteq> setup_page"
    by code_simp
  then have c: "disk collision_final ''changelog.md'' \<noteq> Some setup_page"
    by (simp add: collision_final_values(2))
  have d: "toy_sha256 (changelog_header @ ''- first release'') \<noteq> toy_sha256 setup_page"
    using ne by (simp add: toy_sha256_def)
  show ?thesis
    unfolding sha
    by (intro conjI collision_completes collision_page_fetch collision_stored a b c
        collision_final_values(3) d)
qed

end
